theory Spec2Isabelle
  imports Main "HOL-Library.Sublist" "HOL-Library.Monad_Syntax"
begin

section \<open>goconfig: an INI-style configuration store and its reader\<close>

text \<open>
  The development embeds the Go package \<open>goconfig\<close> (files \<open>goconfig.go\<close> and
  \<open>read.go\<close>). Go strings are byte sequences, modelled as \<open>string\<close> (each \<open>char\<close> is
  one byte). \<open>getValue\<close> returns a sum, \<open>Inl\<close> the error (its value beside an error is
  always the empty string); \<open>read\<close> and the methods that change the store return the
  store after the call. The file system is left out: \<open>read\<close> takes the bytes of the
  file. The reader/writer lock of \<open>ConfigFile\<close> is not modelled: every operation is
  taken on its own, by one goroutine.
\<close>

subsection \<open>The functions of package \<open>strings\<close> that the code calls\<close>

abbreviation DQ :: char where "DQ \<equiv> CHR 0x22"

abbreviation BQ :: char where "BQ \<equiv> CHR 0x60"

abbreviation NL :: char where "NL \<equiv> CHR 0x0A"

text \<open>\<open>strings.Index(s, sep)\<close>: the index of the first occurrence of \<open>sep\<close> in \<open>s\<close>, or -1.\<close>

fun Index :: "string \<Rightarrow> string \<Rightarrow> int" where
  "Index [] sep = (if sep = [] then 0 else -1)"
| "Index (c # s) sep =
     (if prefix sep (c # s) then 0
      else (let r = Index s sep in if r < 0 then -1 else r + 1))"

text \<open>\<open>strings.LastIndex(s, sep)\<close>: the index of the last occurrence of \<open>sep\<close> in \<open>s\<close>, or -1.\<close>

fun LastIndex :: "string \<Rightarrow> string \<Rightarrow> int" where
  "LastIndex [] sep = (if sep = [] then 0 else -1)"
| "LastIndex (c # s) sep =
     (let r = LastIndex s sep in
      if 0 \<le> r then r + 1 else if prefix sep (c # s) then 0 else -1)"

text \<open>\<open>strings.IndexAny(s, chars)\<close> for an ASCII \<open>chars\<close>: the index of the first byte of
  \<open>s\<close> that is in \<open>chars\<close>, or -1.\<close>

fun IndexAny :: "string \<Rightarrow> string \<Rightarrow> int" where
  "IndexAny [] chars = -1"
| "IndexAny (c # s) chars =
     (if c \<in> set chars then 0
      else (let r = IndexAny s chars in if r < 0 then -1 else r + 1))"

text \<open>\<open>strings.TrimLeft(s, cutset)\<close> and \<open>strings.TrimRight(s, cutset)\<close> for an ASCII
  \<open>cutset\<close>: all leading (trailing) bytes that are in the cutset are removed.\<close>

definition TrimLeft :: "string \<Rightarrow> string \<Rightarrow> string" where
  "TrimLeft s cutset = dropWhile (\<lambda>c. c \<in> set cutset) s"

definition TrimRight :: "string \<Rightarrow> string \<Rightarrow> string" where
  "TrimRight s cutset = rev (dropWhile (\<lambda>c. c \<in> set cutset) (rev s))"

text \<open>\<open>strings.Replace(s, old, new, -1)\<close> for a non-empty \<open>old\<close>: every non-overlapping
  occurrence of \<open>old\<close>, from the left, is replaced by \<open>new\<close>. (The code calls it with a
  match of \<open>varPattern\<close> as \<open>old\<close>, which is never empty; for an empty \<open>old\<close> this
  model returns \<open>s\<close>.)\<close>

function Replace :: "string \<Rightarrow> string \<Rightarrow> string \<Rightarrow> string" where
  "Replace s old new =
     (if old = [] then s
      else if prefix old s then new @ Replace (drop (length old) s) old new
      else (case s of [] \<Rightarrow> [] | c # t \<Rightarrow> c # Replace t old new))"
  by pat_completeness auto

termination
  by (relation "measure (\<lambda>(s, old, new). length s)") (auto simp: prefix_def)

declare Replace.simps [simp del]

subsection \<open>The pattern \<open>varPattern\<close>\<close>

text \<open>
  \<open>varPattern = regexp.MustCompile(`%\(([^\)]+)\)s`)\<close>. A match at a position is
  \<open>%(\<close>, then the longest run of bytes other than \<open>)\<close>, which must be non-empty, then
  \<open>)s\<close>: the run cannot stop earlier, since the byte after it must be \<open>)\<close>.
  \<open>matchHere\<close> is the match anchored at the start of the string, and
  \<open>FindString\<close> is \<open>varPattern.FindString\<close>: the leftmost match, or the empty
  string when there is none.
\<close>

definition matchHere :: "string \<Rightarrow> string option" where
  "matchHere s =
     (if take 2 s = ''%(''
      then (let name = takeWhile (\<lambda>c. c \<noteq> CHR '')'') (drop 2 s);
                rest = dropWhile (\<lambda>c. c \<noteq> CHR '')'') (drop 2 s)
            in if name \<noteq> [] \<and> take 2 rest = '')s''
               then Some (''%('' @ name @ '')s'') else None)
      else None)"

fun FindString :: "string \<Rightarrow> string" where
  "FindString [] = []"
| "FindString (c # s) =
     (case matchHere (c # s) of Some m \<Rightarrow> m | None \<Rightarrow> FindString s)"

subsection \<open>The store\<close>

definition DEFAULT_SECTION :: string where
  "DEFAULT_SECTION = ''DEFAULT''"

definition DEPTH_VALUES :: nat where
  "DEPTH_VALUES = 200"

datatype ParseError =
  ERR_SECTION_NOT_FOUND | ERR_KEY_NOT_FOUND | ERR_BLANK_SECTION_NAME | ERR_COULD_NOT_PARSE

datatype getError = getError ParseError string

record ConfigFile =
  fileNames :: "string list"
  data :: "string \<rightharpoonup> (string \<rightharpoonup> string)"
  sectionList :: "string list"
  keyList :: "string \<rightharpoonup> string list"
  sectionComments :: "string \<rightharpoonup> string"
  keyComments :: "string \<rightharpoonup> (string \<rightharpoonup> string)"
  BlockMode :: bool

text \<open>Reading a Go map of maps (or of slices) at a missing key gives the nil map (the nil
  slice), which reads as an empty one.\<close>

definition inner :: "('a \<rightharpoonup> ('b \<rightharpoonup> 'c)) \<Rightarrow> 'a \<Rightarrow> ('b \<rightharpoonup> 'c)" where
  "inner m s = (case m s of None \<Rightarrow> Map.empty | Some x \<Rightarrow> x)"

definition slice_at :: "('a \<rightharpoonup> 'b list) \<Rightarrow> 'a \<Rightarrow> 'b list" where
  "slice_at m s = (case m s of None \<Rightarrow> [] | Some l \<Rightarrow> l)"

definition newConfigFile :: "string list \<Rightarrow> ConfigFile" where
  "newConfigFile names =
     \<lparr>fileNames = names, data = Map.empty, sectionList = [], keyList = Map.empty,
      sectionComments = Map.empty, keyComments = Map.empty, BlockMode = True\<rparr>"

text \<open>A blank section name stands for the DEFAULT section.\<close>

definition norm_section :: "string \<Rightarrow> string" where
  "norm_section section = (if length section = 0 then DEFAULT_SECTION else section)"

text \<open>\<open>setValue\<close> returns the result and the store after the call.\<close>

definition setValue :: "ConfigFile \<Rightarrow> string \<Rightarrow> string \<Rightarrow> string \<Rightarrow> bool \<times> ConfigFile" where
  "setValue c section0 key val =
     (let section = norm_section section0 in
      if length key = 0 then (False, c)
      else
        let c1 = (if data c section = None
                  then c\<lparr>data := (data c)(section \<mapsto> Map.empty),
                         sectionList := sectionList c @ [section]\<rparr>
                  else c);
            ok = (inner (data c1) section key \<noteq> None);
            c2 = c1\<lparr>data := (data c1)(section \<mapsto> (inner (data c1) section)(key \<mapsto> val))\<rparr>;
            c3 = (if \<not> ok
                  then c2\<lparr>keyList := (keyList c2)(section \<mapsto> slice_at (keyList c2) section @ [key])\<rparr>
                  else c2)
        in (\<not> ok, c3))"

subsection \<open>\<open>getValue\<close>\<close>

text \<open>
  \<open>getValue\<close> calls itself, for the parent of a sub-section and inside its
  substitution loop, so it may not return: it is a partial function, \<open>None\<close> when the
  call does not return (in Go, a recursion without end stops the program with a stack
  overflow). \<open>Get section key\<close> is a call of \<open>getValue\<close>; \<open>Loop i section value\<close> is
  the state of its \<open>for\<close> loop before the test \<open>i < _DEPTH_VALUES\<close>.
\<close>

datatype frame = Get string string | Loop nat string string

partial_function (option) getValue_run :: "ConfigFile \<Rightarrow> frame \<Rightarrow> (getError + string) option" where
  "getValue_run c fr =
     (case fr of
        Get section0 key \<Rightarrow>
          (let section = norm_section section0 in
           case data c section of
             None \<Rightarrow> Some (Inl (getError ERR_SECTION_NOT_FOUND section))
           | Some sec \<Rightarrow>
               (case sec key of
                  None \<Rightarrow>
                    (let i = LastIndex section ''.'' in
                     if i > -1 then getValue_run c (Get (take (nat i) section) key)
                     else Some (Inl (getError ERR_KEY_NOT_FOUND key)))
                | Some val \<Rightarrow> getValue_run c (Loop 0 section val)))
      | Loop i section val \<Rightarrow>
          (if i < DEPTH_VALUES then
             (let vr = FindString val in
              if length vr = 0 then Some (Inr val)
              else
                (let noption = TrimRight (TrimLeft vr ''%('') '')s'' in
                 do {
                   r \<leftarrow> getValue_run c (Get DEFAULT_SECTION noption);
                   let nvalue =
                     (case r of
                        Inr v \<Rightarrow> v
                      | Inl err \<Rightarrow>
                          (if section \<noteq> DEFAULT_SECTION
                           then (case inner (data c) section noption of
                                   Some v \<Rightarrow> v | None \<Rightarrow> [])
                           else []));
                   getValue_run c (Loop (i + 1) section (Replace val vr nvalue))
                 }))
           else Some (Inr val)))"

definition getValue :: "ConfigFile \<Rightarrow> string \<Rightarrow> string \<Rightarrow> (getError + string) option" where
  "getValue c section key = getValue_run c (Get section key)"

text \<open>The equation of \<open>getValue_run\<close> is its code equation: it evaluates the calls that
  return.\<close>

declare getValue_run.simps [code]

subsection \<open>The package-level accessors\<close>

text \<open>
  The accessors read the package variable \<open>cf\<close>, here their first argument
  (\<open>Int_value\<close> is the accessor \<open>Int\<close>). A Go
  result \<open>(value, err)\<close> is a pair whose second component is \<open>None\<close> for a nil error, so
  that the value returned beside an error is kept. A variadic \<open>defaultVal\<close> is a list.
  The functions of package \<open>strconv\<close> other than \<open>ParseBool\<close> are parameters
  (\<open>Atoi\<close>, \<open>ParseInt\<close> at base 10 and 64 bits, \<open>ParseFloat\<close> at 64 bits, and the zero
  of the float type), and \<open>None\<close> is a call of \<open>getValue\<close> that never returns.
\<close>

datatype error = Lookup getError | NumError string string

definition returned :: "getError + string \<Rightarrow> string \<times> error option" where
  "returned r = (case r of Inl err \<Rightarrow> ([], Some (Lookup err)) | Inr v \<Rightarrow> (v, None))"

definition Value :: "ConfigFile \<Rightarrow> string \<Rightarrow> string \<Rightarrow> (string \<times> error option) option" where
  "Value cf section key = map_option returned (getValue cf section key)"

definition ParseBool :: "string \<Rightarrow> bool \<times> error option" where
  "ParseBool str =
     (if str \<in> set [''1'', ''t'', ''T'', ''TRUE'', ''true'', ''True''] then (True, None)
      else if str \<in> set [''0'', ''f'', ''F'', ''FALSE'', ''false'', ''False''] then (False, None)
      else (False, Some (NumError ''ParseBool'' str)))"

definition Bool :: "ConfigFile \<Rightarrow> string \<Rightarrow> string \<Rightarrow> (bool \<times> error option) option" where
  "Bool cf section key =
     map_option (\<lambda>r. case r of Inl err \<Rightarrow> (False, Some (Lookup err)) | Inr v \<Rightarrow> ParseBool v)
       (getValue cf section key)"

definition Float64 ::
  "'f \<Rightarrow> (string \<Rightarrow> 'f \<times> error option) \<Rightarrow> ConfigFile \<Rightarrow> string \<Rightarrow> string
     \<Rightarrow> ('f \<times> error option) option" where
  "Float64 zero ParseFloat cf section key =
     map_option (\<lambda>r. case r of Inl err \<Rightarrow> (zero, Some (Lookup err)) | Inr v \<Rightarrow> ParseFloat v)
       (getValue cf section key)"

definition Int_value ::
  "(string \<Rightarrow> int \<times> error option) \<Rightarrow> ConfigFile \<Rightarrow> string \<Rightarrow> string
     \<Rightarrow> (int \<times> error option) option" where
  "Int_value Atoi cf section key =
     map_option (\<lambda>r. case r of Inl err \<Rightarrow> (0, Some (Lookup err)) | Inr v \<Rightarrow> Atoi v)
       (getValue cf section key)"

definition Int64 ::
  "(string \<Rightarrow> int \<times> error option) \<Rightarrow> ConfigFile \<Rightarrow> string \<Rightarrow> string
     \<Rightarrow> (int \<times> error option) option" where
  "Int64 ParseInt cf section key =
     map_option (\<lambda>r. case r of Inl err \<Rightarrow> (0, Some (Lookup err)) | Inr v \<Rightarrow> ParseInt v)
       (getValue cf section key)"

definition MustValue :: "ConfigFile \<Rightarrow> string \<Rightarrow> string \<Rightarrow> string list \<Rightarrow> string option" where
  "MustValue cf section key defaultVal =
     map_option
       (\<lambda>r. case returned r of
               (val, err) \<Rightarrow>
                 if length defaultVal > 0 \<and> (err \<noteq> None \<or> length val = 0)
                 then hd defaultVal else val)
       (getValue cf section key)"

definition MustBool :: "ConfigFile \<Rightarrow> string \<Rightarrow> string \<Rightarrow> bool list \<Rightarrow> bool option" where
  "MustBool cf section key defaultVal =
     map_option
       (\<lambda>(val, err). if length defaultVal > 0 \<and> err \<noteq> None then hd defaultVal else val)
       (Bool cf section key)"

definition MustFloat64 ::
  "'f \<Rightarrow> (string \<Rightarrow> 'f \<times> error option) \<Rightarrow> ConfigFile \<Rightarrow> string \<Rightarrow> string \<Rightarrow> 'f list
     \<Rightarrow> 'f option" where
  "MustFloat64 zero ParseFloat cf section key defaultVal =
     map_option
       (\<lambda>(val, err). if length defaultVal > 0 \<and> err \<noteq> None then hd defaultVal else val)
       (Float64 zero ParseFloat cf section key)"

definition MustInt ::
  "(string \<Rightarrow> int \<times> error option) \<Rightarrow> ConfigFile \<Rightarrow> string \<Rightarrow> string \<Rightarrow> int list
     \<Rightarrow> int option" where
  "MustInt Atoi cf section key defaultVal =
     map_option
       (\<lambda>(val, err). if length defaultVal > 0 \<and> err \<noteq> None then hd defaultVal else val)
       (Int_value Atoi cf section key)"

definition MustInt64 ::
  "(string \<Rightarrow> int \<times> error option) \<Rightarrow> ConfigFile \<Rightarrow> string \<Rightarrow> string \<Rightarrow> int list
     \<Rightarrow> int option" where
  "MustInt64 ParseInt cf section key defaultVal =
     map_option
       (\<lambda>(val, err). if length defaultVal > 0 \<and> err \<noteq> None then hd defaultVal else val)
       (Int64 ParseInt cf section key)"

subsection \<open>Comments\<close>

definition with_prefix :: "string \<Rightarrow> string" where
  "with_prefix comments =
     (case comments of
        [] \<Rightarrow> []
      | ch # _ \<Rightarrow> if ch \<noteq> CHR ''#'' \<and> ch \<noteq> CHR '';'' then ''; '' @ comments else comments)"

definition setSectionComments :: "ConfigFile \<Rightarrow> string \<Rightarrow> string \<Rightarrow> bool \<times> ConfigFile" where
  "setSectionComments c section0 comments =
     (let section = norm_section section0 in
      if length comments = 0
      then (True, c\<lparr>sectionComments := (sectionComments c)(section := None)\<rparr>)
      else
        let ok = (sectionComments c section \<noteq> None)
        in (\<not> ok, c\<lparr>sectionComments := (sectionComments c)(section \<mapsto> with_prefix comments)\<rparr>))"

definition setKeyComments :: "ConfigFile \<Rightarrow> string \<Rightarrow> string \<Rightarrow> string \<Rightarrow> bool \<times> ConfigFile" where
  "setKeyComments c section0 key comments =
     (let section = norm_section section0 in
      if length comments = 0
      then (True,
            if keyComments c section \<noteq> None
            then c\<lparr>keyComments :=
                     (keyComments c)(section \<mapsto> (inner (keyComments c) section)(key := None))\<rparr>
            else c)
      else
        let ok = (inner (keyComments c) section key \<noteq> None)
        in (\<not> ok,
            c\<lparr>keyComments :=
                 (keyComments c)(section \<mapsto>
                    (inner (keyComments c) section)(key \<mapsto> with_prefix comments))\<rparr>))"

subsection \<open>\<open>strings.TrimSpace\<close> and \<open>fmt.Sprint\<close>\<close>

text \<open>
  \<open>strings.TrimSpace\<close> removes the leading and trailing runes that \<open>unicode.IsSpace\<close>
  accepts: six ASCII bytes, and the runes U+0085, U+00A0, U+1680, U+2000 to U+200A,
  U+2028, U+2029, U+202F, U+205F and U+3000, here in their UTF-8 encodings.
  \<open>leadingSpace\<close> (\<open>trailingSpace\<close>) is the width in bytes of the first (last) rune
  when it is white space, and 0 otherwise.
\<close>

definition asciiSpace :: "char \<Rightarrow> bool" where
  "asciiSpace c = (c \<in> set [CHR 0x09, CHR 0x0A, CHR 0x0B, CHR 0x0C, CHR 0x0D, CHR 0x20])"

definition unicodeSpace :: "string list" where
  "unicodeSpace =
     [[CHR 0xC2, CHR 0x85], [CHR 0xC2, CHR 0xA0], [CHR 0xE1, CHR 0x9A, CHR 0x80],
      [CHR 0xE2, CHR 0x80, CHR 0x80], [CHR 0xE2, CHR 0x80, CHR 0x81],
      [CHR 0xE2, CHR 0x80, CHR 0x82], [CHR 0xE2, CHR 0x80, CHR 0x83],
      [CHR 0xE2, CHR 0x80, CHR 0x84], [CHR 0xE2, CHR 0x80, CHR 0x85],
      [CHR 0xE2, CHR 0x80, CHR 0x86], [CHR 0xE2, CHR 0x80, CHR 0x87],
      [CHR 0xE2, CHR 0x80, CHR 0x88], [CHR 0xE2, CHR 0x80, CHR 0x89],
      [CHR 0xE2, CHR 0x80, CHR 0x8A], [CHR 0xE2, CHR 0x80, CHR 0xA8],
      [CHR 0xE2, CHR 0x80, CHR 0xA9], [CHR 0xE2, CHR 0x80, CHR 0xAF],
      [CHR 0xE2, CHR 0x81, CHR 0x9F], [CHR 0xE3, CHR 0x80, CHR 0x80]]"

definition leadingSpace :: "string \<Rightarrow> nat" where
  "leadingSpace s =
     (case s of
        [] \<Rightarrow> 0
      | c # _ \<Rightarrow>
          if asciiSpace c then 1
          else (case find (\<lambda>w. prefix w s) unicodeSpace of Some w \<Rightarrow> length w | None \<Rightarrow> 0))"

definition trailingSpace :: "string \<Rightarrow> nat" where
  "trailingSpace s =
     (case rev s of
        [] \<Rightarrow> 0
      | c # _ \<Rightarrow>
          if asciiSpace c then 1
          else (case find (\<lambda>w. suffix w s) unicodeSpace of Some w \<Rightarrow> length w | None \<Rightarrow> 0))"

function trimLeftSpace :: "string \<Rightarrow> string" where
  "trimLeftSpace s =
     (if leadingSpace s = 0 then s else trimLeftSpace (drop (leadingSpace s) s))"
  by pat_completeness auto

termination
  by (relation "measure length") (auto simp: leadingSpace_def split: list.splits)

function trimRightSpace :: "string \<Rightarrow> string" where
  "trimRightSpace s =
     (if trailingSpace s = 0 then s else trimRightSpace (take (length s - trailingSpace s) s))"
  by pat_completeness auto

termination
  by (relation "measure length") (auto simp: trailingSpace_def split: list.splits)

declare trimLeftSpace.simps [simp del] trimRightSpace.simps [simp del]

definition TrimSpace :: "string \<Rightarrow> string" where
  "TrimSpace s = trimRightSpace (trimLeftSpace s)"

text \<open>\<open>fmt.Sprint\<close> of a non-negative \<open>int\<close>: its decimal digits. The counter of the
  reader starts at 1 and is only incremented; it is a \<open>nat\<close> here (a 64-bit \<open>int\<close>
  in Go, which no input can overflow line by line).\<close>

function Sprint :: "nat \<Rightarrow> string" where
  "Sprint n =
     (if n < 10 then [''0123456789'' ! n]
      else Sprint (n div 10) @ [''0123456789'' ! (n mod 10)])"
  by pat_completeness auto

termination
  by (relation "measure id") auto

declare Sprint.simps [simp del]

subsection \<open>The reader\<close>

datatype readError = readError ParseError string

text \<open>
  \<open>keyQuote_of\<close> is the choice of \<open>keyQuote\<close> from the first bytes of the line;
  \<open>splitKey\<close> is the rest of the key's parsing, to the index \<open>i\<close> of the delimiter
  and the key, \<open>None\<close> where the code returns \<open>ERR_COULD_NOT_PARSE\<close>. The line is
  never empty there.
\<close>

definition keyQuote_of :: "string \<Rightarrow> string" where
  "keyQuote_of line =
     (if take 1 line = [DQ]
      then (if length line \<ge> 6 \<and> take 3 line = [DQ, DQ, DQ] then [DQ, DQ, DQ] else [DQ])
      else if take 1 line = [BQ] then [BQ]
      else [])"

definition splitKey :: "string \<Rightarrow> (int \<times> string) option" where
  "splitKey line =
     (let keyQuote = keyQuote_of line in
      if keyQuote \<noteq> [] then
        (let qLen = length keyQuote;
             pos = Index (drop qLen line) keyQuote
         in if pos = -1 then None
            else
              (let pos = pos + int qLen;
                   i = IndexAny (drop (nat pos) line) ''=:''
               in if i \<le> 0 then None
                  else Some (i + pos, take (nat pos - qLen) (drop qLen line))))
      else
        (let i = IndexAny line ''=:''
         in if i \<le> 0 then None
            else Some (i, TrimSpace (take (nat i) line))))"

text \<open>\<open>valQuote_of\<close> is the choice of \<open>valQuote\<close> from \<open>lineRight\<close>, and
  \<open>splitValue\<close> the value, \<open>None\<close> where the code returns \<open>ERR_COULD_NOT_PARSE\<close>.\<close>

definition valQuote_of :: "string \<Rightarrow> string" where
  "valQuote_of lineRight =
     (let lineRightLength = length lineRight;
          firstChar = (if lineRightLength \<ge> 2 then take 1 lineRight else [])
      in if firstChar = [BQ] then [BQ]
         else if lineRightLength \<ge> 6 \<and> take 3 lineRight = [DQ, DQ, DQ] then [DQ, DQ, DQ]
         else [])"

definition splitValue :: "string \<Rightarrow> string option" where
  "splitValue lineRight =
     (let valQuote = valQuote_of lineRight in
      if valQuote \<noteq> [] then
        (let qLen = length valQuote;
             pos = LastIndex (drop qLen lineRight) valQuote
         in if pos = -1 then None
            else Some (take (nat pos) (drop qLen lineRight)))
      else Some (TrimSpace lineRight))"

text \<open>\<open>keyValue line count\<close> is the \<open>default\<close> case of the \<open>switch\<close> up to the call of
  \<open>setValue\<close>: the key, the value and the counter after the line.\<close>

definition keyValue :: "string \<Rightarrow> nat \<Rightarrow> readError + (string \<times> string \<times> nat)" where
  "keyValue line count =
     (case splitKey line of
        None \<Rightarrow> Inl (readError ERR_COULD_NOT_PARSE line)
      | Some (i, key0) \<Rightarrow>
          (let (key, count') =
                 (if key0 = ''-'' then (''#'' @ Sprint count, count + 1) else (key0, count));
               lineRight = TrimSpace (drop (nat (i + 1)) line)
           in case splitValue lineRight of
                None \<Rightarrow> Inl (readError ERR_COULD_NOT_PARSE line)
              | Some val \<Rightarrow> Inr (key, val, count')))"

text \<open>
  The state of the loop of \<open>read\<close>: the store and the three local variables. One turn
  of the loop on a trimmed line either returns an error, or ends in \<open>continue\<close>
  (\<open>Continue\<close>), or leaves the \<open>switch\<close> (\<open>Leave\<close>). \<open>LineBreak\<close> is the package
  variable of that name.
\<close>

record read_state =
  conf :: ConfigFile
  count :: nat
  cur_section :: string
  comments :: string

datatype flow = Continue | Leave

definition processLine :: "string \<Rightarrow> string \<Rightarrow> read_state \<Rightarrow> readError + (flow \<times> read_state)" where
  "processLine LineBreak line st =
     (if length line = 0 then Inr (Continue, st)
      else if hd line = CHR ''#'' \<or> hd line = CHR '';'' then
        Inr (Continue,
             st\<lparr>comments := (if length (comments st) = 0 then line
                               else comments st @ LineBreak @ line)\<rparr>)
      else if hd line = CHR ''['' \<and> last line = CHR '']'' then
        (let section = TrimSpace (take (length line - 1 - 1) (drop 1 line));
             c1 = (if length (comments st) > 0
                   then snd (setSectionComments (conf st) section (comments st))
                   else conf st);
             c2 = snd (setValue c1 section '' '' '' '')
         in Inr (Continue, \<lparr>conf = c2, count = 1, cur_section = section, comments = []\<rparr>))
      else if cur_section st = [] then Inl (readError ERR_BLANK_SECTION_NAME line)
      else
        (case keyValue line (count st) of
           Inl err \<Rightarrow> Inl err
         | Inr (key, val, count') \<Rightarrow>
             (let c1 = snd (setValue (conf st) (cur_section st) key val);
                  c2 = (if length (comments st) > 0
                        then snd (setKeyComments c1 (cur_section st) key (comments st))
                        else c1)
              in Inr (Leave, st\<lparr>conf := c2, count := count', comments := []\<rparr>))))"

text \<open>
  \<open>ReadString buf\<close> is \<open>buf.ReadString('\n')\<close> on a reader that holds the bytes
  \<open>buf\<close> and never fails: the line with its line feed, the bytes left, and whether
  the error is \<open>io.EOF\<close> (no line feed was left).
\<close>

definition ReadString :: "string \<Rightarrow> string \<times> string \<times> bool" where
  "ReadString buf =
     (case dropWhile (\<lambda>c. c \<noteq> NL) buf of
        [] \<Rightarrow> (buf, [], True)
      | nl # rest \<Rightarrow> (takeWhile (\<lambda>c. c \<noteq> NL) buf @ [nl], rest, False))"

text \<open>The loop of \<open>read\<close>: the error if any, and the state reached (on an error, the state
  before the line that failed: the store keeps what the earlier lines wrote).\<close>

function read_loop :: "string \<Rightarrow> string \<Rightarrow> read_state \<Rightarrow> readError option \<times> read_state" where
  "read_loop LineBreak buf st =
     (case ReadString buf of
        (line0, rest, eof) \<Rightarrow>
          (let line = TrimSpace line0 in
           if eof \<and> length line = 0 then (None, st)
           else
             (case processLine LineBreak line st of
                Inl err \<Rightarrow> (Some err, st)
              | Inr (Continue, st') \<Rightarrow> read_loop LineBreak rest st'
              | Inr (Leave, st') \<Rightarrow>
                  if eof then (None, st') else read_loop LineBreak rest st')))"
  by pat_completeness auto

termination
proof -
  have empty: "TrimSpace [] = []"
    by (simp add: TrimSpace_def trimLeftSpace.simps trimRightSpace.simps
        leadingSpace_def trailingSpace_def)
  have shorter: "length rest < length buf"
    if "ReadString buf = (line0, rest, eof)" and "\<not> (eof \<and> length (TrimSpace line0) = 0)"
    for buf line0 rest eof
  proof (cases "dropWhile (\<lambda>c. c \<noteq> NL) buf")
    case Nil
    with that have "line0 = buf" "rest = []" "eof" by (simp_all add: ReadString_def)
    with that(2) have "buf \<noteq> []" by (auto simp: empty)
    with \<open>rest = []\<close> show ?thesis by simp
  next
    case (Cons nl rest')
    with that have "rest = rest'" by (simp add: ReadString_def)
    moreover have "length (dropWhile (\<lambda>c. c \<noteq> NL) buf) \<le> length buf"
      by (rule length_dropWhile_le)
    ultimately show ?thesis using Cons by simp
  qed
  show ?thesis
    by (relation "measure (\<lambda>(LineBreak, buf, st). length buf)")
       (auto dest: shorter [OF sym])
qed

declare read_loop.simps [simp del]

definition skipBOM :: "string \<Rightarrow> string" where
  "skipBOM input =
     (if take 3 input = [CHR 0xEF, CHR 0xBB, CHR 0xBF] then drop 3 input else input)"

definition read :: "string \<Rightarrow> ConfigFile \<Rightarrow> string \<Rightarrow> readError option \<times> ConfigFile" where
  "read LineBreak c input =
     (let (err, st) =
            read_loop LineBreak (skipBOM input)
              \<lparr>conf = c, count = 1, cur_section = DEFAULT_SECTION, comments = []\<rparr>
      in (err, conf st))"

section \<open>Stores, files and predicates of the statements\<close>

text \<open>
  \<open>example_store\<close> holds the sections \<open>a\<close> (with \<open>k=v\<close>) and \<open>a.b\<close> (with \<open>x=y\<close>);
  \<open>must_store\<close> holds section \<open>s\<close> with the empty value at \<open>e\<close> and \<open>true\<close> at \<open>t\<close>.
  \<open>atoi_sample\<close> stands for \<open>strconv.Atoi\<close> on the two strings of the examples.
\<close>

definition example_store :: ConfigFile where
  "example_store =
     snd (setValue (snd (setValue (newConfigFile []) ''a'' ''k'' ''v'')) ''a.b'' ''x'' ''y'')"

definition must_store :: ConfigFile where
  "must_store =
     snd (setValue (snd (setValue (newConfigFile []) ''s'' ''e'' [])) ''s'' ''t'' ''true'')"

definition atoi_sample :: "string \<Rightarrow> int \<times> error option" where
  "atoi_sample str = (if str = ''7'' then (7, None) else (0, Some (NumError ''Atoi'' str)))"

text \<open>
  \<open>key_order_ok\<close>: in every section the key list has no key twice and holds exactly
  the keys of the section. \<open>set_all\<close> runs a list of \<open>setValue\<close> calls, \<open>keys_set ops
  s\<close> are the non-empty keys that the calls \<open>ops\<close> set in section \<open>s\<close>, in the order of
  the calls, and \<open>first_seen\<close> keeps the first occurrence of every element of a list.
\<close>

definition key_order_ok :: "ConfigFile \<Rightarrow> bool" where
  "key_order_ok c =
     (\<forall>s. distinct (slice_at (keyList c) s)
          \<and> set (slice_at (keyList c) s) = dom (inner (data c) s))"

definition first_seen :: "'a list \<Rightarrow> 'a list" where
  "first_seen xs = rev (remdups (rev xs))"

fun set_all :: "ConfigFile \<Rightarrow> (string \<times> string \<times> string) list \<Rightarrow> ConfigFile" where
  "set_all c [] = c"
| "set_all c ((sect, key, val) # ops) = set_all (snd (setValue c sect key val)) ops"

definition keys_set :: "(string \<times> string \<times> string) list \<Rightarrow> string \<Rightarrow> string list" where
  "keys_set ops s =
     map (\<lambda>(sect, key, val). key)
       (filter (\<lambda>(sect, key, val). norm_section sect = s \<and> key \<noteq> []) ops)"

text \<open>
  Configuration files: \<open>circular_conf\<close> is \<open>a=%(b)s\<close>, \<open>b=%(a)s\<close>; \<open>plural_conf\<close> is
  \<open>hosts=alpha\<close>, \<open>host=beta\<close>, \<open>url=%(hosts)s\<close>; \<open>dash_conf\<close> is \<open>[s]\<close>,
  \<open>-=first\<close>, \<open>-=second\<close>; \<open>reset_conf\<close> is \<open>-=zero\<close>, \<open>-=one\<close>, \<open>[t]\<close>,
  \<open>-=third\<close>. \<open>circular_frames\<close> are the calls and loop states that the first of
  them sends \<open>getValue\<close> through.
\<close>

definition circular_conf :: string where
  "circular_conf = ''a=%(b)s'' @ [NL] @ ''b=%(a)s'' @ [NL]"

definition plural_conf :: string where
  "plural_conf = ''hosts=alpha'' @ [NL] @ ''host=beta'' @ [NL] @ ''url=%(hosts)s'' @ [NL]"

definition dash_conf :: string where
  "dash_conf = ''[s]'' @ [NL] @ ''-=first'' @ [NL] @ ''-=second'' @ [NL]"

definition reset_conf :: string where
  "reset_conf = ''-=zero'' @ [NL] @ ''-=one'' @ [NL] @ ''[t]'' @ [NL] @ ''-=third'' @ [NL]"

definition circular_frames :: "frame set" where
  "circular_frames =
     {Get DEFAULT_SECTION ''a'', Get DEFAULT_SECTION ''b'',
      Loop 0 DEFAULT_SECTION ''%(b)s'', Loop 0 DEFAULT_SECTION ''%(a)s''}"

text \<open>
  The tests of the \<open>switch\<close> on a trimmed line: a section header, and a line that
  reaches the last two cases (neither empty, nor a comment, nor a header).
  \<open>counting_state\<close> is a state of the loop inside section \<open>a\<close>, its counter at 3, and
  \<open>blank_state\<close> one after a header with a blank name.
\<close>

definition section_line :: "string \<Rightarrow> bool" where
  "section_line line =
     (length line \<noteq> 0 \<and> hd line = CHR ''['' \<and> last line = CHR '']'')"

definition key_value_line :: "string \<Rightarrow> bool" where
  "key_value_line line =
     (length line \<noteq> 0 \<and> \<not> (hd line = CHR ''#'' \<or> hd line = CHR '';'')
      \<and> \<not> (hd line = CHR ''['' \<and> last line = CHR '']''))"

definition counting_state :: read_state where
  "counting_state = \<lparr>conf = example_store, count = 3, cur_section = ''a'', comments = []\<rparr>"

definition blank_state :: read_state where
  "blank_state = \<lparr>conf = example_store, count = 1, cur_section = [], comments = []\<rparr>"

text \<open>
  The loop of \<open>read\<close>, line by line. \<open>start_state c\<close> is the state in which the loop
  starts on the store \<open>c\<close>; \<open>input_lines buf\<close> are the trimmed lines that the loop takes
  from \<open>buf\<close>, in their order (a last line without line feed is left out when it is
  empty); \<open>run_lines\<close> takes the turns of the loop on a list of lines, to the first
  error. \<open>mixed_conf\<close> is the file \<open># c\<close>, \<open>k=v\<close>, \<open>[s]\<close>, \<open>x=y\<close>.
\<close>

definition start_state :: "ConfigFile \<Rightarrow> read_state" where
  "start_state c = \<lparr>conf = c, count = 1, cur_section = DEFAULT_SECTION, comments = []\<rparr>"

function input_lines :: "string \<Rightarrow> string list" where
  "input_lines buf =
     (case ReadString buf of
        (line0, rest, eof) \<Rightarrow>
          if eof then (if length (TrimSpace line0) = 0 then [] else [TrimSpace line0])
          else TrimSpace line0 # input_lines rest)"
  by pat_completeness auto
termination
proof -
  have shorter: "length rest < length buf"
    if "ReadString buf = (line0, rest, False)" for buf line0 rest
  proof -
    from that obtain nl where "dropWhile (\<lambda>c. c \<noteq> NL) buf = nl # rest"
      by (auto simp: ReadString_def split: list.splits)
    moreover have "length (dropWhile (\<lambda>c. c \<noteq> NL) buf) \<le> length buf"
      by (rule length_dropWhile_le)
    ultimately show ?thesis by simp
  qed
  show ?thesis
    by (relation "measure length") (auto dest: shorter [OF sym])
qed

declare input_lines.simps [simp del]

fun run_lines :: "string \<Rightarrow> string list \<Rightarrow> read_state \<Rightarrow> readError option \<times> read_state" where
  "run_lines lb [] st = (None, st)"
| "run_lines lb (line # ls) st =
     (case processLine lb line st of
        Inl err \<Rightarrow> (Some err, st)
      | Inr (fl, st') \<Rightarrow> run_lines lb ls st')"

definition mixed_conf :: string where
  "mixed_conf = ''# c'' @ [NL] @ ''k=v'' @ [NL] @ ''[s]'' @ [NL] @ ''x=y''"

section \<open>Properties of the store\<close>

subsection \<open>One step of \<open>getValue\<close>\<close>

text \<open>A call of \<open>getValue\<close> up to its loop, and one turn of the loop.\<close>

lemma getValue_run_Get:
  "getValue_run c (Get section0 key) =
     (case data c (norm_section section0) of
        None \<Rightarrow> Some (Inl (getError ERR_SECTION_NOT_FOUND (norm_section section0)))
      | Some sec \<Rightarrow>
          (case sec key of
             None \<Rightarrow>
               (if LastIndex (norm_section section0) ''.'' > -1
                then getValue_run c
                       (Get (take (nat (LastIndex (norm_section section0) ''.''))
                          (norm_section section0)) key)
                else Some (Inl (getError ERR_KEY_NOT_FOUND key)))
           | Some val \<Rightarrow> getValue_run c (Loop 0 (norm_section section0) val)))"
  by (subst getValue_run.simps) (simp add: Let_def split: option.split)

lemma getValue_run_Loop:
  "getValue_run c (Loop i section val) =
     (if i < DEPTH_VALUES \<and> FindString val \<noteq> [] then
        Option.bind
          (getValue_run c
             (Get DEFAULT_SECTION (TrimRight (TrimLeft (FindString val) ''%('') '')s'')))
          (\<lambda>r. getValue_run c (Loop (i + 1) section
             (Replace val (FindString val)
                (case r of
                   Inr v \<Rightarrow> v
                 | Inl err \<Rightarrow>
                     (if section \<noteq> DEFAULT_SECTION
                      then (case inner (data c) section
                                   (TrimRight (TrimLeft (FindString val) ''%('') '')s'') of
                              Some v \<Rightarrow> v | None \<Rightarrow> [])
                      else [])))))
      else Some (Inr val))"
  by (subst getValue_run.simps) (simp add: Let_def split: option.split)

lemma LastIndex_dot_neg: "CHR ''.'' \<notin> set s \<Longrightarrow> LastIndex s ''.'' = -1"
  by (induction s) (auto simp: Let_def)

lemma LastIndex_nonneg_le: "LastIndex s sep \<ge> -1"
  by (induction s) (auto simp: Let_def)

lemma LastIndex_dot_split:
  "CHR ''.'' \<notin> set child \<Longrightarrow> LastIndex (parent @ ''.'' @ child) ''.'' = int (length parent)"
  by (induction parent) (auto simp: Let_def LastIndex_dot_neg)

lemma norm_section_idem: "norm_section (norm_section s) = norm_section s"
  by (simp add: norm_section_def DEFAULT_SECTION_def)

subsection \<open>\<open>setValue\<close>, field by field\<close>

lemma setValue_empty_key: "setValue c sect [] val = (False, c)"
  by (simp add: setValue_def)

lemma setValue_data:
  "key \<noteq> [] \<Longrightarrow>
   data (snd (setValue c sect key val))
     = (data c)(norm_section sect \<mapsto> (inner (data c) (norm_section sect))(key \<mapsto> val))"
  by (auto simp: setValue_def Let_def inner_def)

lemma setValue_result:
  "key \<noteq> [] \<Longrightarrow>
   fst (setValue c sect key val) = (inner (data c) (norm_section sect) key = None)"
  by (auto simp: setValue_def Let_def inner_def)

lemma setValue_sectionList:
  "key \<noteq> [] \<Longrightarrow>
   sectionList (snd (setValue c sect key val))
     = (if data c (norm_section sect) = None
        then sectionList c @ [norm_section sect] else sectionList c)"
  by (auto simp: setValue_def Let_def)

lemma setValue_keyList:
  "key \<noteq> [] \<Longrightarrow>
   keyList (snd (setValue c sect key val))
     = (if inner (data c) (norm_section sect) key = None
        then (keyList c)(norm_section sect \<mapsto>
               slice_at (keyList c) (norm_section sect) @ [key])
        else keyList c)"
  by (auto simp: setValue_def Let_def inner_def)

lemma getValue_stored:
  assumes "data c (norm_section sect) = Some m" "m key = Some val"
  shows "getValue c sect key = getValue_run c (Loop 0 (norm_section sect) val)"
  using assms by (simp add: getValue_def getValue_run_Get)

lemma getValue_plain:
  assumes "data c (norm_section sect) = Some m" "m key = Some val" "FindString val = []"
  shows "getValue c sect key = Some (Inr val)"
  using assms by (simp add: getValue_stored getValue_run_Loop)

lemma data_example_store:
  "data example_store = [''a'' \<mapsto> [''k'' \<mapsto> ''v''], ''a.b'' \<mapsto> [''x'' \<mapsto> ''y'']]"
  by (simp add: example_store_def setValue_data norm_section_def inner_def newConfigFile_def)

subsection \<open>Lookup errors and the parent of a sub-section\<close>

text \<open>
  Claim C4. In every store, \<open>getValue\<close> on a section that the store does not hold
  returns the error \<open>ERR_SECTION_NOT_FOUND\<close> (with the section's name, \<open>DEFAULT\<close> for a
  blank one). On a section that is there and lacks the key it returns
  \<open>ERR_KEY_NOT_FOUND\<close> when the section's name has no dot, and otherwise is the same
  call on the name cut at its last dot: \<open>parent\<close> when the name is
  \<open>parent.child\<close> and \<open>child\<close> has no dot.
\<close>

theorem getValue_lookup_errors:
  "(data c (norm_section sect) = None \<longrightarrow>
      getValue c sect key = Some (Inl (getError ERR_SECTION_NOT_FOUND (norm_section sect))))
   \<and> (\<forall>m. data c (norm_section sect) = Some m \<and> m key = None
            \<and> CHR ''.'' \<notin> set (norm_section sect) \<longrightarrow>
          getValue c sect key = Some (Inl (getError ERR_KEY_NOT_FOUND key)))
   \<and> (\<forall>m parent child.
          data c (norm_section sect) = Some m \<and> m key = None
            \<and> norm_section sect = parent @ ''.'' @ child \<and> CHR ''.'' \<notin> set child \<longrightarrow>
          getValue c sect key = getValue c parent key)"
proof (intro conjI allI impI)
  assume "data c (norm_section sect) = None"
  then show "getValue c sect key
      = Some (Inl (getError ERR_SECTION_NOT_FOUND (norm_section sect)))"
    by (simp add: getValue_def getValue_run_Get)
next
  fix m
  assume "data c (norm_section sect) = Some m \<and> m key = None
            \<and> CHR ''.'' \<notin> set (norm_section sect)"
  then show "getValue c sect key = Some (Inl (getError ERR_KEY_NOT_FOUND key))"
    by (simp add: getValue_def getValue_run_Get LastIndex_dot_neg)
next
  fix m parent child
  assume a: "data c (norm_section sect) = Some m \<and> m key = None
            \<and> norm_section sect = parent @ ''.'' @ child \<and> CHR ''.'' \<notin> set child"
  define S where "S = norm_section sect"
  from a have d: "data c S = Some m" "m key = None" and S: "S = parent @ ''.'' @ child"
    and ch: "CHR ''.'' \<notin> set child"
    unfolding S_def by blast+
  have li: "LastIndex S ''.'' = int (length parent)"
    unfolding S using ch by (rule LastIndex_dot_split)
  have "getValue c sect key = getValue_run c (Get (take (nat (LastIndex S ''.'')) S) key)"
    unfolding getValue_def S_def
    using d li by (subst getValue_run_Get) (simp add: S_def)
  also have "take (nat (LastIndex S ''.'')) S = parent"
    by (simp add: li) (simp add: S)
  finally show "getValue c sect key = getValue c parent key"
    by (simp add: getValue_def)
qed

theorem getValue_lookup_errors_witness:
  "getValue example_store ''zzz'' ''k'' = Some (Inl (getError ERR_SECTION_NOT_FOUND ''zzz''))
   \<and> getValue example_store ''a'' ''q'' = Some (Inl (getError ERR_KEY_NOT_FOUND ''q''))
   \<and> getValue example_store ''a.b'' ''k'' = getValue example_store ''a'' ''k''
   \<and> getValue example_store ''a'' ''k'' = Some (Inr ''v'')"
proof (intro conjI)
  show "getValue example_store ''zzz'' ''k''
      = Some (Inl (getError ERR_SECTION_NOT_FOUND ''zzz''))"
    using getValue_lookup_errors [of example_store "''zzz''" "''k''"]
    by (simp add: data_example_store norm_section_def)
next
  have "data example_store (norm_section ''a'') = Some [''k'' \<mapsto> ''v'']
        \<and> [''k'' \<mapsto> ''v''] ''q'' = None \<and> CHR ''.'' \<notin> set (norm_section ''a'')"
    by (simp add: data_example_store norm_section_def)
  then show "getValue example_store ''a'' ''q'' = Some (Inl (getError ERR_KEY_NOT_FOUND ''q''))"
    using getValue_lookup_errors [of example_store "''a''" "''q''"] by blast
next
  have "data example_store (norm_section ''a.b'') = Some [''x'' \<mapsto> ''y'']
        \<and> [''x'' \<mapsto> ''y''] ''k'' = None \<and> norm_section ''a.b'' = ''a'' @ ''.'' @ ''b''
        \<and> CHR ''.'' \<notin> set ''b''"
    by (simp add: data_example_store norm_section_def)
  then show "getValue example_store ''a.b'' ''k'' = getValue example_store ''a'' ''k''"
    using getValue_lookup_errors [of example_store "''a.b''" "''k''"] by blast
next
  show "getValue example_store ''a'' ''k'' = Some (Inr ''v'')"
    by (rule getValue_plain [where m = "[''k'' \<mapsto> ''v'']"])
       (simp_all add: data_example_store norm_section_def matchHere_def)
qed

subsection \<open>Values without a placeholder\<close>

text \<open>A match of \<open>varPattern\<close> at the start of a string, in words.\<close>

lemma matchHere_Some_iff:
  "matchHere s = Some m \<longleftrightarrow>
     (\<exists>name rest. s = ''%('' @ name @ '')s'' @ rest \<and> name \<noteq> [] \<and> CHR '')'' \<notin> set name
        \<and> m = ''%('' @ name @ '')s'')"
proof
  assume a: "matchHere s = Some m"
  let ?name = "takeWhile (\<lambda>c. c \<noteq> CHR '')'') (drop 2 s)"
  let ?rest = "dropWhile (\<lambda>c. c \<noteq> CHR '')'') (drop 2 s)"
  from a have t: "take 2 s = ''%(''" and n: "?name \<noteq> []" and r: "take 2 ?rest = '')s''"
    and m: "m = ''%('' @ ?name @ '')s''"
    by (auto simp: matchHere_def Let_def split: if_splits)
  have "s = take 2 s @ drop 2 s" by simp
  also have "drop 2 s = ?name @ ?rest" by simp
  also have "?rest = take 2 ?rest @ drop 2 ?rest" by simp
  finally have "s = ''%('' @ ?name @ '')s'' @ drop 2 ?rest"
    using t r by simp
  moreover have "CHR '')'' \<notin> set ?name"
    by (auto dest: set_takeWhileD)
  ultimately show "\<exists>name rest. s = ''%('' @ name @ '')s'' @ rest \<and> name \<noteq> []
      \<and> CHR '')'' \<notin> set name \<and> m = ''%('' @ name @ '')s''"
    using n m by blast
next
  assume "\<exists>name rest. s = ''%('' @ name @ '')s'' @ rest \<and> name \<noteq> [] \<and> CHR '')'' \<notin> set name
      \<and> m = ''%('' @ name @ '')s''"
  then obtain name rest where s: "s = ''%('' @ name @ '')s'' @ rest" and n: "name \<noteq> []"
    and c: "CHR '')'' \<notin> set name" and m: "m = ''%('' @ name @ '')s''"
    by blast
  have tw: "takeWhile (\<lambda>c. c \<noteq> CHR '')'') (name @ '')s'' @ rest) = name"
    using c by (induction name) auto
  have dw: "dropWhile (\<lambda>c. c \<noteq> CHR '')'') (name @ '')s'' @ rest) = '')s'' @ rest"
    using c by (induction name) auto
  show "matchHere s = Some m"
    using n tw dw by (simp add: matchHere_def s m)
qed

text \<open>A value has no placeholder exactly when \<open>FindString\<close> finds nothing in it.\<close>

lemma FindString_Nil_iff:
  "FindString s = [] \<longleftrightarrow>
     \<not> (\<exists>pre name post. s = pre @ ''%('' @ name @ '')s'' @ post \<and> name \<noteq> []
           \<and> CHR '')'' \<notin> set name)"
proof (induction s)
  case Nil
  show ?case by simp
next
  case (Cons c s)
  show ?case
  proof (cases "matchHere (c # s)")
    case (Some m)
    then obtain name rest where cs: "c # s = ''%('' @ name @ '')s'' @ rest" and n: "name \<noteq> []"
      and np: "CHR '')'' \<notin> set name" and m: "m = ''%('' @ name @ '')s''"
      unfolding matchHere_Some_iff by blast
    from cs have "c # s = [] @ ''%('' @ name @ '')s'' @ rest" by simp
    with n np have "\<exists>pre name post. c # s = pre @ ''%('' @ name @ '')s'' @ post \<and> name \<noteq> []
           \<and> CHR '')'' \<notin> set name" by blast
    moreover have "FindString (c # s) \<noteq> []" using Some m by simp
    ultimately show ?thesis by blast
  next
    case None
    have "(\<exists>pre name post. c # s = pre @ ''%('' @ name @ '')s'' @ post \<and> name \<noteq> []
           \<and> CHR '')'' \<notin> set name)
       \<longleftrightarrow> (\<exists>pre name post. s = pre @ ''%('' @ name @ '')s'' @ post \<and> name \<noteq> []
           \<and> CHR '')'' \<notin> set name)" (is "?L \<longleftrightarrow> ?R")
    proof
      assume ?L
      then obtain pre name post where e: "c # s = pre @ ''%('' @ name @ '')s'' @ post"
        and n: "name \<noteq> []" "CHR '')'' \<notin> set name" by blast
      show ?R
      proof (cases pre)
        case Nil
        with e n have "matchHere (c # s) = Some (''%('' @ name @ '')s'')"
          unfolding matchHere_Some_iff by auto
        with None show ?thesis by simp
      next
        case (Cons p pre')
        with e have "s = pre' @ ''%('' @ name @ '')s'' @ post" by simp
        with n show ?thesis by blast
      qed
    next
      assume ?R
      then obtain pre name post where e: "s = pre @ ''%('' @ name @ '')s'' @ post"
        and n: "name \<noteq> []" "CHR '')'' \<notin> set name" by blast
      from e have "c # s = (c # pre) @ ''%('' @ name @ '')s'' @ post" by simp
      with n show ?L by blast
    qed
    moreover have "FindString (c # s) = FindString s" using None by simp
    ultimately show ?thesis using Cons.IH by simp
  qed
qed

subsection \<open>Reading back what was set\<close>

text \<open>
  Claim C5, as amended. For every store, section, non-empty key and value in which
  \<open>varPattern\<close> has no match, \<open>getValue\<close> after \<open>setValue\<close> returns the value that was
  set, and no error. (With the empty key \<open>setValue\<close> stores nothing, and the claim as
  stated fails, as the second theorem below shows.)
\<close>

theorem set_then_get:
  assumes "key \<noteq> []" and "FindString val = []"
  shows "getValue (snd (setValue c sect key val)) sect key = Some (Inr val)"
proof -
  let ?c = "snd (setValue c sect key val)"
  have "data ?c (norm_section sect)
          = Some ((inner (data c) (norm_section sect))(key \<mapsto> val))"
    using assms(1) by (simp add: setValue_data)
  then show ?thesis
    by (rule getValue_plain) (simp_all add: assms(2))
qed

theorem set_then_get_witness:
  "getValue (snd (setValue example_store ''a'' ''port'' ''8080'')) ''a'' ''port''
     = Some (Inr ''8080'')"
  by (rule set_then_get) (simp_all add: matchHere_def)

theorem set_then_get_empty_key:
  "FindString ''v'' = []
   \<and> getValue (snd (setValue (newConfigFile []) ''s'' [] ''v'')) ''s'' []
       = Some (Inl (getError ERR_SECTION_NOT_FOUND ''s''))"
  by (simp add: matchHere_def setValue_empty_key getValue_def getValue_run_Get
      norm_section_def newConfigFile_def)

subsection \<open>What \<open>setValue\<close> does\<close>

text \<open>
  Claim C6, as amended. In every store, \<open>setValue\<close> with the empty key returns false
  and the store as it was. With a non-empty key it appends the section's name to
  \<open>sectionList\<close> exactly when the store did not hold the section, after it the store
  holds the section and the value at the key, and it returns true exactly when the
  section had no such key. Setting the key a second time returns false and leaves the
  second value in the store, and \<open>getValue\<close> then returns the second value, provided
  \<open>varPattern\<close> has no match in it. (The claim as stated fails for a second value with
  a placeholder, as the last theorem of this subsection shows.)
\<close>

theorem setValue_effect:
  "setValue c sect [] val = (False, c)
   \<and> (key \<noteq> [] \<longrightarrow>
        (data c (norm_section sect) = None \<longrightarrow>
           sectionList (snd (setValue c sect key val)) = sectionList c @ [norm_section sect])
      \<and> (data c (norm_section sect) \<noteq> None \<longrightarrow>
           sectionList (snd (setValue c sect key val)) = sectionList c)
      \<and> data (snd (setValue c sect key val)) (norm_section sect) \<noteq> None
      \<and> inner (data (snd (setValue c sect key val))) (norm_section sect) key = Some val
      \<and> fst (setValue c sect key val) = (inner (data c) (norm_section sect) key = None)
      \<and> fst (setValue (snd (setValue c sect key val)) sect key val2) = False
      \<and> inner (data (snd (setValue (snd (setValue c sect key val)) sect key val2)))
            (norm_section sect) key = Some val2
      \<and> (FindString val2 = [] \<longrightarrow>
           getValue (snd (setValue (snd (setValue c sect key val)) sect key val2)) sect key
             = Some (Inr val2)))"
proof (intro conjI impI)
  show "setValue c sect [] val = (False, c)" by (rule setValue_empty_key)
next
  assume k: "key \<noteq> []"
  let ?c = "snd (setValue c sect key val)"
  show "data ?c (norm_section sect) \<noteq> None" using k by (simp add: setValue_data)
  show st: "inner (data ?c) (norm_section sect) key = Some val"
    using k by (simp add: setValue_data inner_def)
  show "fst (setValue c sect key val) = (inner (data c) (norm_section sect) key = None)"
    using k by (rule setValue_result)
  show "fst (setValue ?c sect key val2) = False"
    using k st by (simp add: setValue_result)
  { assume "data c (norm_section sect) = None"
    then show "sectionList ?c = sectionList c @ [norm_section sect]"
      using k by (simp add: setValue_sectionList) }
  { assume "data c (norm_section sect) \<noteq> None"
    then show "sectionList ?c = sectionList c"
      using k by (simp add: setValue_sectionList) }
  show "inner (data (snd (setValue ?c sect key val2))) (norm_section sect) key = Some val2"
    using k by (simp add: setValue_data inner_def)
  { assume plain: "FindString val2 = []"
    have "data (snd (setValue ?c sect key val2)) (norm_section sect)
        = Some ((inner (data ?c) (norm_section sect))(key \<mapsto> val2))"
      using k by (simp add: setValue_data)
    then show "getValue (snd (setValue ?c sect key val2)) sect key = Some (Inr val2)"
      by (rule getValue_plain) (simp_all add: plain) }
qed

theorem setValue_effect_witness:
  "setValue example_store ''a'' [] ''w'' = (False, example_store)
   \<and> sectionList (snd (setValue example_store ''n'' ''k'' ''w'')) = [''a'', ''a.b'', ''n'']
   \<and> sectionList (snd (setValue example_store ''a'' ''k'' ''w'')) = [''a'', ''a.b'']
   \<and> fst (setValue example_store ''a'' ''k'' ''w'') = False
   \<and> fst (setValue example_store ''a'' ''k2'' ''w'') = True
   \<and> getValue (snd (setValue (snd (setValue example_store ''a'' ''k'' ''w'')) ''a'' ''k'' ''w2''))
        ''a'' ''k'' = Some (Inr ''w2'')"
proof -
  have sl: "sectionList example_store = [''a'', ''a.b'']"
    by (simp add: example_store_def setValue_sectionList setValue_data norm_section_def
        newConfigFile_def)
  have n: "norm_section ''a'' = ''a''" "norm_section ''n'' = ''n''"
    by (simp_all add: norm_section_def)
  have k: "''k'' \<noteq> []" "''k2'' \<noteq> []" by simp_all
  have f: "FindString ''w2'' = []" by (simp add: matchHere_def)
  note old = setValue_effect [of example_store "''a''" "''w''" "''k''" "''w2''"]
  note new_section = setValue_effect [of example_store "''n''" "''w''" "''k''" "''w2''"]
  note new_key = setValue_effect [of example_store "''a''" "''w''" "''k2''" "''w2''"]
  have "setValue example_store ''a'' [] ''w'' = (False, example_store)"
    using old by blast
  moreover have "sectionList (snd (setValue example_store ''n'' ''k'' ''w''))
      = [''a'', ''a.b'', ''n'']"
  proof -
    have "data example_store (norm_section ''n'') = None"
      by (simp add: data_example_store n)
    with new_section k have "sectionList (snd (setValue example_store ''n'' ''k'' ''w''))
      = sectionList example_store @ [norm_section ''n'']" by blast
    then show ?thesis by (simp add: sl n)
  qed
  moreover have "sectionList (snd (setValue example_store ''a'' ''k'' ''w'')) = [''a'', ''a.b'']"
  proof -
    have "data example_store (norm_section ''a'') \<noteq> None"
      by (simp add: data_example_store n)
    with old k have "sectionList (snd (setValue example_store ''a'' ''k'' ''w''))
      = sectionList example_store" by blast
    then show ?thesis by (simp add: sl)
  qed
  moreover have "fst (setValue example_store ''a'' ''k'' ''w'') = False"
  proof -
    from old k have "fst (setValue example_store ''a'' ''k'' ''w'')
        = (inner (data example_store) (norm_section ''a'') ''k'' = None)" by blast
    then show ?thesis by (simp add: data_example_store n inner_def)
  qed
  moreover have "fst (setValue example_store ''a'' ''k2'' ''w'') = True"
  proof -
    from new_key k have "fst (setValue example_store ''a'' ''k2'' ''w'')
        = (inner (data example_store) (norm_section ''a'') ''k2'' = None)" by blast
    then show ?thesis by (simp add: data_example_store n inner_def)
  qed
  moreover have "getValue (snd (setValue (snd (setValue example_store ''a'' ''k'' ''w''))
        ''a'' ''k'' ''w2'')) ''a'' ''k'' = Some (Inr ''w2'')"
    using old k f by blast
  ultimately show ?thesis by blast
qed

text \<open>The second value \<open>%(u)s\<close> overwrites \<open>x\<close>; \<open>getValue\<close> returns the empty string.\<close>

theorem overwritten_placeholder_resolved:
  "fst (setValue (snd (setValue (newConfigFile []) ''s'' ''k'' ''x'')) ''s'' ''k'' ''%(u)s'') = False
   \<and> getValue (snd (setValue (snd (setValue (newConfigFile []) ''s'' ''k'' ''x'')) ''s'' ''k''
        ''%(u)s'')) ''s'' ''k'' = Some (Inr [])"
  by code_simp

subsection \<open>The order of the keys\<close>

lemma remdups_drop_seen: "k \<in> set zs \<Longrightarrow> remdups (ys @ k # zs) = remdups (ys @ zs)"
  by (induction ys) auto

lemma first_seen_known: "k \<in> set xs \<Longrightarrow> first_seen (xs @ k # ys) = first_seen (xs @ ys)"
  by (simp add: first_seen_def remdups_drop_seen)

lemma first_seen_distinct: "distinct xs \<Longrightarrow> first_seen xs = xs"
  by (simp add: first_seen_def distinct_remdups_id)

lemma key_order_ok_new: "key_order_ok (newConfigFile names)"
  by (simp add: key_order_ok_def newConfigFile_def slice_at_def inner_def)

lemma setValue_slice_at:
  "key \<noteq> [] \<Longrightarrow>
   slice_at (keyList (snd (setValue c sect key val))) s
     = (if s = norm_section sect \<and> inner (data c) s key = None
        then slice_at (keyList c) s @ [key] else slice_at (keyList c) s)"
  by (simp add: setValue_keyList slice_at_def)

lemma setValue_inner:
  "key \<noteq> [] \<Longrightarrow>
   inner (data (snd (setValue c sect key val))) s
     = (if s = norm_section sect then (inner (data c) s)(key \<mapsto> val) else inner (data c) s)"
  by (simp add: setValue_data inner_def)

lemma key_order_ok_setValue:
  assumes "key_order_ok c"
  shows "key_order_ok (snd (setValue c sect key val))"
proof (cases "key = []")
  case True
  with assms show ?thesis by (simp add: setValue_empty_key)
next
  case False
  show ?thesis
    unfolding key_order_ok_def
  proof (intro allI)
    fix s
    from assms have d: "distinct (slice_at (keyList c) s)"
      and e: "set (slice_at (keyList c) s) = dom (inner (data c) s)"
      by (simp_all add: key_order_ok_def)
    show "distinct (slice_at (keyList (snd (setValue c sect key val))) s) \<and>
         set (slice_at (keyList (snd (setValue c sect key val))) s)
           = dom (inner (data (snd (setValue c sect key val))) s)"
      using False d e by (auto simp: setValue_slice_at setValue_inner)
  qed
qed

lemma set_all_key_order:
  "key_order_ok c \<Longrightarrow>
   slice_at (keyList (set_all c ops)) s = first_seen (slice_at (keyList c) s @ keys_set ops s)"
proof (induction ops arbitrary: c)
  case Nil
  then show ?case
    by (simp add: keys_set_def first_seen_distinct key_order_ok_def)
next
  case (Cons op ops)
  obtain sect key val where op: "op = (sect, key, val)" by (cases op)
  let ?c = "snd (setValue c sect key val)"
  have ok: "key_order_ok ?c" using Cons.prems by (rule key_order_ok_setValue)
  have ih: "slice_at (keyList (set_all ?c ops)) s
      = first_seen (slice_at (keyList ?c) s @ keys_set ops s)"
    using ok by (rule Cons.IH)
  from Cons.prems have e: "set (slice_at (keyList c) s) = dom (inner (data c) s)"
    by (simp add: key_order_ok_def)
  show ?case
  proof (cases "key = []")
    case True
    then show ?thesis using ih by (simp add: op setValue_empty_key keys_set_def)
  next
    case False
    show ?thesis
    proof (cases "norm_section sect = s")
      case other: False
      then show ?thesis using ih False by (auto simp: op setValue_slice_at keys_set_def)
    next
      case same: True
      show ?thesis
      proof (cases "inner (data c) s key = None")
        case True
        then show ?thesis using ih False same by (simp add: op setValue_slice_at keys_set_def)
      next
        case known: False
        then have "key \<in> set (slice_at (keyList c) s)" using e by auto
        then have "first_seen (slice_at (keyList c) s @ key # keys_set ops s)
            = first_seen (slice_at (keyList c) s @ keys_set ops s)"
          by (rule first_seen_known)
        then show ?thesis
          using ih False same known by (simp add: op setValue_slice_at keys_set_def)
      qed
    qed
  qed
qed

text \<open>
  Claim C9. For every store, section and key: \<open>setValue\<close> on a key that the section
  holds changes the stored value and leaves every key list as it was; on a new key it
  appends the key to the section's list; the lists of the other sections stay as they
  were; \<open>key_order_ok\<close> is preserved by every call. From the empty store, after any
  calls of \<open>setValue\<close>, the list of a section is its keys in the order in which they
  were first set.
\<close>

theorem key_order_kept:
  "(key \<noteq> [] \<and> inner (data c) (norm_section sect) key \<noteq> None \<longrightarrow>
      keyList (snd (setValue c sect key val)) = keyList c
      \<and> inner (data (snd (setValue c sect key val))) (norm_section sect) key = Some val)
   \<and> (key \<noteq> [] \<and> inner (data c) (norm_section sect) key = None \<longrightarrow>
        slice_at (keyList (snd (setValue c sect key val))) (norm_section sect)
          = slice_at (keyList c) (norm_section sect) @ [key])
   \<and> (\<forall>s. s \<noteq> norm_section sect \<longrightarrow>
        slice_at (keyList (snd (setValue c sect key val))) s = slice_at (keyList c) s)
   \<and> (key_order_ok c \<longrightarrow> key_order_ok (snd (setValue c sect key val)))
   \<and> slice_at (keyList (set_all (newConfigFile names) ops)) s = first_seen (keys_set ops s)"
proof (intro conjI impI allI)
  assume "key \<noteq> [] \<and> inner (data c) (norm_section sect) key \<noteq> None"
  then show "keyList (snd (setValue c sect key val)) = keyList c"
    and "inner (data (snd (setValue c sect key val))) (norm_section sect) key = Some val"
    by (auto simp: setValue_keyList setValue_inner)
next
  assume "key \<noteq> [] \<and> inner (data c) (norm_section sect) key = None"
  then show "slice_at (keyList (snd (setValue c sect key val))) (norm_section sect)
          = slice_at (keyList c) (norm_section sect) @ [key]"
    by (simp add: setValue_slice_at)
next
  fix s assume "s \<noteq> norm_section sect"
  then show "slice_at (keyList (snd (setValue c sect key val))) s = slice_at (keyList c) s"
    by (cases "key = []") (simp_all add: setValue_slice_at setValue_empty_key)
next
  assume "key_order_ok c"
  then show "key_order_ok (snd (setValue c sect key val))" by (rule key_order_ok_setValue)
next
  show "slice_at (keyList (set_all (newConfigFile names) ops)) s = first_seen (keys_set ops s)"
    using set_all_key_order [OF key_order_ok_new, of names ops s]
    by (simp add: newConfigFile_def slice_at_def)
qed

lemma key_order_ok_example: "key_order_ok example_store"
  unfolding example_store_def by (intro key_order_ok_setValue key_order_ok_new)

lemma keyList_example_store: "keyList example_store = [''a'' \<mapsto> [''k''], ''a.b'' \<mapsto> [''x'']]"
  by (simp add: example_store_def setValue_keyList setValue_data norm_section_def inner_def
      slice_at_def newConfigFile_def)

theorem key_order_kept_witness:
  "keyList (snd (setValue example_store ''a'' ''k'' ''w'')) = keyList example_store
   \<and> inner (data (snd (setValue example_store ''a'' ''k'' ''w''))) ''a'' ''k'' = Some ''w''
   \<and> slice_at (keyList (snd (setValue example_store ''a'' ''k2'' ''w''))) ''a'' = [''k'', ''k2'']
   \<and> slice_at (keyList (snd (setValue example_store ''a'' ''k2'' ''w''))) ''a.b'' = [''x'']
   \<and> key_order_ok (snd (setValue example_store ''a'' ''k'' ''w''))
   \<and> slice_at (keyList (set_all (newConfigFile [])
         [(''a'', ''k'', ''1''), (''a'', ''j'', ''2''), (''a'', ''k'', ''3'')])) ''a''
       = [''k'', ''j'']"
proof -
  have n: "norm_section ''a'' = ''a''" by (simp add: norm_section_def)
  note reset = key_order_kept [of "''k''" example_store "''a''" "''w''" "[]" "[]" "''a''"]
  note fresh = key_order_kept [of "''k2''" example_store "''a''" "''w''" "[]" "[]" "''a''"]
  note trace = key_order_kept [of "''k''" example_store "''a''" "''w''" "[]"
      "[(''a'', ''k'', ''1''), (''a'', ''j'', ''2''), (''a'', ''k'', ''3'')]" "''a''"]
  have known: "''k'' \<noteq> [] \<and> inner (data example_store) (norm_section ''a'') ''k'' \<noteq> None"
    by (simp add: data_example_store n inner_def)
  have unknown: "''k2'' \<noteq> [] \<and> inner (data example_store) (norm_section ''a'') ''k2'' = None"
    by (simp add: data_example_store n inner_def)
  have "keyList (snd (setValue example_store ''a'' ''k'' ''w'')) = keyList example_store"
    using reset known by blast
  moreover have "inner (data (snd (setValue example_store ''a'' ''k'' ''w''))) ''a'' ''k''
      = Some ''w''"
    using reset known n by metis
  moreover have "slice_at (keyList (snd (setValue example_store ''a'' ''k2'' ''w''))) ''a''
      = [''k'', ''k2'']"
  proof -
    from fresh unknown
    have "slice_at (keyList (snd (setValue example_store ''a'' ''k2'' ''w''))) (norm_section ''a'')
        = slice_at (keyList example_store) (norm_section ''a'') @ [''k2'']" by blast
    then show ?thesis by (simp add: n keyList_example_store slice_at_def)
  qed
  moreover have "slice_at (keyList (snd (setValue example_store ''a'' ''k2'' ''w''))) ''a.b''
      = [''x'']"
  proof -
    have "''a.b'' \<noteq> norm_section ''a''" by (simp add: n)
    with fresh
    have "slice_at (keyList (snd (setValue example_store ''a'' ''k2'' ''w''))) ''a.b''
        = slice_at (keyList example_store) ''a.b''" by blast
    then show ?thesis by (simp add: keyList_example_store slice_at_def)
  qed
  moreover have "key_order_ok (snd (setValue example_store ''a'' ''k'' ''w''))"
    using reset key_order_ok_example by blast
  moreover have "slice_at (keyList (set_all (newConfigFile [])
         [(''a'', ''k'', ''1''), (''a'', ''j'', ''2''), (''a'', ''k'', ''3'')])) ''a''
       = [''k'', ''j'']"
  proof -
    from trace have "slice_at (keyList (set_all (newConfigFile [])
         [(''a'', ''k'', ''1''), (''a'', ''j'', ''2''), (''a'', ''k'', ''3'')])) ''a''
       = first_seen (keys_set [(''a'', ''k'', ''1''), (''a'', ''j'', ''2''), (''a'', ''k'', ''3'')]
           ''a'')" by blast
    then show ?thesis by (simp add: keys_set_def first_seen_def n)
  qed
  ultimately show ?thesis by blast
qed

subsection \<open>The accessors with a default\<close>

text \<open>
  Claim C10. For every section and key on which the lookup returns, and every
  non-empty default list, \<open>MustValue\<close> returns the first default when the lookup
  returned an error and also when it returned the empty string, and the value that the
  lookup returned otherwise. \<open>MustBool\<close>, \<open>MustInt\<close>, \<open>MustInt64\<close> and
  \<open>MustFloat64\<close> return the first default only when their accessor returned an error,
  and the accessor's value when it returned none.
\<close>

theorem MustValue_default:
  assumes "defaultVal \<noteq> []" and "getValue cf sect key = Some r"
  shows "MustValue cf sect key defaultVal
           = Some (case r of Inl err \<Rightarrow> hd defaultVal
                   | Inr v \<Rightarrow> if v = [] then hd defaultVal else v)
   \<and> Bool cf sect key
         = Some (case r of Inl err \<Rightarrow> (False, Some (Lookup err)) | Inr v \<Rightarrow> ParseBool v)
   \<and> (\<forall>b. Bool cf sect key = Some (b, None) \<longrightarrow> MustBool cf sect key dB = Some b)
   \<and> (\<forall>b e. Bool cf sect key = Some (b, Some e) \<and> dB \<noteq> [] \<longrightarrow>
          MustBool cf sect key dB = Some (hd dB))
   \<and> (\<forall>i. Int_value Atoi cf sect key = Some (i, None) \<longrightarrow>
          MustInt Atoi cf sect key dI = Some i)
   \<and> (\<forall>i e. Int_value Atoi cf sect key = Some (i, Some e) \<and> dI \<noteq> [] \<longrightarrow>
          MustInt Atoi cf sect key dI = Some (hd dI))
   \<and> (\<forall>i. Int64 ParseInt cf sect key = Some (i, None) \<longrightarrow>
          MustInt64 ParseInt cf sect key dI = Some i)
   \<and> (\<forall>i e. Int64 ParseInt cf sect key = Some (i, Some e) \<and> dI \<noteq> [] \<longrightarrow>
          MustInt64 ParseInt cf sect key dI = Some (hd dI))
   \<and> (\<forall>x. Float64 zero ParseFloat cf sect key = Some (x, None) \<longrightarrow>
          MustFloat64 zero ParseFloat cf sect key dF = Some x)
   \<and> (\<forall>x e. Float64 zero ParseFloat cf sect key = Some (x, Some e) \<and> dF \<noteq> [] \<longrightarrow>
          MustFloat64 zero ParseFloat cf sect key dF = Some (hd dF))"
proof (intro conjI allI impI)
  show "MustValue cf sect key defaultVal
           = Some (case r of Inl err \<Rightarrow> hd defaultVal
                   | Inr v \<Rightarrow> if v = [] then hd defaultVal else v)"
    using assms by (cases r) (simp_all add: MustValue_def Value_def returned_def)
  show "Bool cf sect key
         = Some (case r of Inl err \<Rightarrow> (False, Some (Lookup err)) | Inr v \<Rightarrow> ParseBool v)"
    using assms(2) by (simp add: Bool_def)
qed (simp_all add: MustBool_def MustInt_def MustInt64_def MustFloat64_def)

theorem MustValue_default_witness:
  "MustValue must_store ''s'' ''e'' [''d''] = Some ''d''
   \<and> MustValue must_store ''s'' ''t'' [''d''] = Some ''true''
   \<and> MustValue must_store ''s'' ''missing'' [''d''] = Some ''d''
   \<and> MustBool must_store ''s'' ''t'' [False] = Some True
   \<and> MustBool must_store ''s'' ''e'' [True] = Some True
   \<and> MustInt atoi_sample must_store ''s'' ''t'' [5] = Some 5"
proof -
  have e: "getValue must_store ''s'' ''e'' = Some (Inr [])"
    and t: "getValue must_store ''s'' ''t'' = Some (Inr ''true'')"
    and m: "getValue must_store ''s'' ''missing''
              = Some (Inl (getError ERR_KEY_NOT_FOUND ''missing''))"
    unfolding must_store_def by code_simp+
  have d: "[''d''] \<noteq> []" by simp
  have "MustValue must_store ''s'' ''e'' [''d''] = Some ''d''"
    using MustValue_default [OF d e, THEN conjunct1] by simp
  moreover have "MustValue must_store ''s'' ''t'' [''d''] = Some ''true''"
    using MustValue_default [OF d t, THEN conjunct1] by simp
  moreover have "MustValue must_store ''s'' ''missing'' [''d''] = Some ''d''"
    using MustValue_default [OF d m, THEN conjunct1] by simp
  moreover have "MustBool must_store ''s'' ''t'' [False] = Some True"
  proof -
    note th = MustValue_default [OF d t, THEN conjunct2]
    from th [THEN conjunct1] have "Bool must_store ''s'' ''t'' = Some (True, None)"
      by (simp add: ParseBool_def)
    with th [THEN conjunct2, THEN conjunct1] show ?thesis by blast
  qed
  moreover have "MustBool must_store ''s'' ''e'' [True] = Some True"
  proof -
    note th = MustValue_default [OF d e, THEN conjunct2]
    from th [THEN conjunct1]
    have "Bool must_store ''s'' ''e'' = Some (False, Some (NumError ''ParseBool'' []))"
      by (simp add: ParseBool_def)
    moreover have "[True] \<noteq> []" by simp
    ultimately have "MustBool must_store ''s'' ''e'' [True] = Some (hd [True])"
      using th [THEN conjunct2, THEN conjunct2, THEN conjunct1] by blast
    then show ?thesis by simp
  qed
  moreover have "MustInt atoi_sample must_store ''s'' ''t'' [5] = Some 5"
  proof -
    note th = MustValue_default [OF d t, THEN conjunct2, THEN conjunct2, THEN conjunct2,
        THEN conjunct2, THEN conjunct2, THEN conjunct1]
    have "Int_value atoi_sample must_store ''s'' ''t''
        = Some (0, Some (NumError ''Atoi'' ''true''))"
      by (simp add: Int_value_def t atoi_sample_def)
    moreover have "[5::int] \<noteq> []" by simp
    ultimately have "MustInt atoi_sample must_store ''s'' ''t'' [5] = Some (hd [5])"
      using th by blast
    then show ?thesis by simp
  qed
  ultimately show ?thesis by blast
qed

section \<open>The substitution of variables\<close>

subsection \<open>Two values that name each other\<close>

lemma placeholder_a:
  "FindString ''%(a)s'' = ''%(a)s''" "TrimRight (TrimLeft ''%(a)s'' ''%('') '')s'' = ''a''"
  by (simp_all add: matchHere_def TrimRight_def TrimLeft_def)

lemma placeholder_b:
  "FindString ''%(b)s'' = ''%(b)s''" "TrimRight (TrimLeft ''%(b)s'' ''%('') '')s'' = ''b''"
  by (simp_all add: matchHere_def TrimRight_def TrimLeft_def)

text \<open>In a store whose DEFAULT section has \<open>a=%(b)s\<close> and \<open>b=%(a)s\<close>, none of the four
  frames returns: each of them needs the result of another one first.\<close>

lemma circular_frames_stuck:
  assumes a: "inner (data c) DEFAULT_SECTION ''a'' = Some ''%(b)s''"
    and b: "inner (data c) DEFAULT_SECTION ''b'' = Some ''%(a)s''"
    and run: "getValue_run c fr = Some y"
  shows "fr \<notin> circular_frames"
proof -
  have D: "norm_section DEFAULT_SECTION = DEFAULT_SECTION"
    by (simp add: norm_section_def DEFAULT_SECTION_def)
  from a obtain m where m: "data c DEFAULT_SECTION = Some m" "m ''a'' = Some ''%(b)s''"
    by (auto simp: inner_def split: option.splits)
  with b have mb: "m ''b'' = Some ''%(a)s''" by (simp add: inner_def)
  have "c = c \<longrightarrow> fr \<notin> circular_frames"
  proof (rule getValue_run.raw_induct
      [where P = "\<lambda>c' fr y. c' = c \<longrightarrow> fr \<notin> circular_frames", OF _ run], goal_cases)
    case (1 f c' fr y)
    show ?case
    proof (intro impI notI)
      assume c': "c' = c" and fr: "fr \<in> circular_frames"
      have stuck: "\<And>fr y. fr \<in> circular_frames \<Longrightarrow> f c fr \<noteq> Some y"
        using 1(1) by blast
      from fr consider "fr = Get DEFAULT_SECTION ''a''" | "fr = Get DEFAULT_SECTION ''b''"
        | "fr = Loop 0 DEFAULT_SECTION ''%(b)s''" | "fr = Loop 0 DEFAULT_SECTION ''%(a)s''"
        by (auto simp: circular_frames_def)
      then show False
      proof cases
        case 1
        with \<open>_ = Some y\<close> c' m D have "f c (Loop 0 DEFAULT_SECTION ''%(b)s'') = Some y"
          by simp
        then show False using stuck by (simp add: circular_frames_def)
      next
        case 2
        with \<open>_ = Some y\<close> c' m mb D have "f c (Loop 0 DEFAULT_SECTION ''%(a)s'') = Some y"
          by simp
        then show False using stuck by (simp add: circular_frames_def)
      next
        case 3
        with \<open>_ = Some y\<close> c' obtain r where "f c (Get DEFAULT_SECTION ''b'') = Some r"
          by (auto simp: placeholder_b DEPTH_VALUES_def Let_def simp del: FindString.simps
              split: Option.bind_splits)
        then show False using stuck by (simp add: circular_frames_def)
      next
        case 4
        with \<open>_ = Some y\<close> c' obtain r where "f c (Get DEFAULT_SECTION ''a'') = Some r"
          by (auto simp: placeholder_a DEPTH_VALUES_def Let_def simp del: FindString.simps
              split: Option.bind_splits)
        then show False using stuck by (simp add: circular_frames_def)
      qed
    qed
  qed
  then show ?thesis by simp
qed

lemma circular_never_returns:
  assumes "inner (data c) DEFAULT_SECTION ''a'' = Some ''%(b)s''"
    and "inner (data c) DEFAULT_SECTION ''b'' = Some ''%(a)s''"
  shows "getValue c DEFAULT_SECTION ''a'' = None"
proof (cases "getValue c DEFAULT_SECTION ''a''")
  case None
  then show ?thesis .
next
  case (Some y)
  then have "Get DEFAULT_SECTION ''a'' \<notin> circular_frames"
    unfolding getValue_def by (rule circular_frames_stuck [OF assms])
  then show ?thesis by (simp add: circular_frames_def)
qed

text \<open>
  Claim C1 says that \<open>getValue("DEFAULT", "a")\<close> returns, after at most 200 turns of
  the loop, when \<open>a\<close> and \<open>b\<close> of the DEFAULT section name each other. It does not: the
  file \<open>circular_conf\<close> is read without error, and on the store read from it the call
  never returns. The bound \<open>_DEPTH_VALUES\<close> counts the turns of one loop; the call of
  \<open>getValue\<close> inside the first turn starts a loop of its own, whose first turn calls
  \<open>getValue\<close> again, and so on.
\<close>

theorem circular_getValue_never_returns:
  "fst (read [NL] (newConfigFile [''conf/app.conf'']) circular_conf) = None
   \<and> getValue (snd (read [NL] (newConfigFile [''conf/app.conf'']) circular_conf))
        DEFAULT_SECTION ''a'' = None"
proof
  show "fst (read [NL] (newConfigFile [''conf/app.conf'']) circular_conf) = None"
    unfolding circular_conf_def by code_simp
  show "getValue (snd (read [NL] (newConfigFile [''conf/app.conf'']) circular_conf))
        DEFAULT_SECTION ''a'' = None"
  proof (rule circular_never_returns)
    show "inner (data (snd (read [NL] (newConfigFile [''conf/app.conf'']) circular_conf)))
        DEFAULT_SECTION ''a'' = Some ''%(b)s''"
      unfolding circular_conf_def by code_simp
    show "inner (data (snd (read [NL] (newConfigFile [''conf/app.conf'']) circular_conf)))
        DEFAULT_SECTION ''b'' = Some ''%(a)s''"
      unfolding circular_conf_def by code_simp
  qed
qed

subsection \<open>The name inside a placeholder\<close>

text \<open>
  Claim C3 says that the loop resolves exactly the name between \<open>%(\<close> and \<open>)s\<close>. It
  does not: \<open>strings.TrimLeft\<close> and \<open>strings.TrimRight\<close> take sets of characters, so
  every leading \<open>%\<close> and \<open>(\<close> and every trailing \<open>)\<close> and \<open>s\<close> goes, and the name
  \<open>hosts\<close> is looked up as \<open>host\<close>. On the store read from \<open>plural_conf\<close> the key
  \<open>hosts\<close> has the value \<open>alpha\<close>, and \<open>url\<close>, which is \<open>%(hosts)s\<close>, resolves to
  \<open>beta\<close>.
\<close>

theorem plural_name_resolved_as_singular:
  "fst (read [NL] (newConfigFile [''conf/app.conf'']) plural_conf) = None
   \<and> getValue (snd (read [NL] (newConfigFile [''conf/app.conf'']) plural_conf))
        DEFAULT_SECTION ''hosts'' = Some (Inr ''alpha'')
   \<and> getValue (snd (read [NL] (newConfigFile [''conf/app.conf'']) plural_conf))
        DEFAULT_SECTION ''url'' = Some (Inr ''beta'')"
  unfolding plural_conf_def by code_simp

section \<open>Properties of the reader\<close>

subsection \<open>The searches of package \<open>strings\<close>, in words\<close>

text \<open>\<open>Index\<close> and \<open>LastIndex\<close> return -1 exactly when the separator does not occur,
  \<open>IndexAny\<close> exactly when no byte of the string is in the set, and \<open>IndexAny\<close> returns 0
  exactly when the first byte is.\<close>

lemma Index_ge: "Index s sep \<ge> -1"
  by (induction s) (auto simp: Let_def)

lemma Index_prefix: "Index s sep \<noteq> -1 \<Longrightarrow> prefix sep (drop (nat (Index s sep)) s)"
proof (induction s)
  case Nil
  then show ?case by (simp split: if_splits)
next
  case (Cons c s)
  show ?case
  proof (cases "prefix sep (c # s)")
    case True
    then show ?thesis by simp
  next
    case False
    with Cons.prems have r: "Index s sep \<noteq> -1" by (auto simp: Let_def split: if_splits)
    with Index_ge [of s sep] have "0 \<le> Index s sep" by linarith
    then have "nat (Index s sep + 1) = Suc (nat (Index s sep))" by simp
    with False r Cons.IH show ?thesis by (simp add: Let_def)
  qed
qed

lemma Index_none_iff: "Index s sep = -1 \<longleftrightarrow> \<not> (\<exists>pre post. s = pre @ sep @ post)"
proof (induction s)
  case Nil
  show ?case by auto
next
  case (Cons c s)
  show ?case
  proof (cases "prefix sep (c # s)")
    case True
    then obtain post where "c # s = [] @ sep @ post" by (auto simp: prefix_def)
    then have "\<exists>pre post. c # s = pre @ sep @ post" by blast
    with True show ?thesis by simp
  next
    case False
    have "(\<exists>pre post. c # s = pre @ sep @ post) \<longleftrightarrow> (\<exists>pre post. s = pre @ sep @ post)"
    proof
      assume "\<exists>pre post. c # s = pre @ sep @ post"
      then obtain pre post where e: "c # s = pre @ sep @ post" by blast
      with False have "pre \<noteq> []" by (auto simp: prefix_def)
      then obtain p pre' where "pre = p # pre'" by (cases pre) auto
      with e have "s = pre' @ sep @ post" by simp
      then show "\<exists>pre post. s = pre @ sep @ post" by blast
    next
      assume "\<exists>pre post. s = pre @ sep @ post"
      then obtain pre post where "s = pre @ sep @ post" by blast
      then have "c # s = (c # pre) @ sep @ post" by simp
      then show "\<exists>pre post. c # s = pre @ sep @ post" by blast
    qed
    moreover have "Index (c # s) sep = -1 \<longleftrightarrow> Index s sep = -1"
      using False Index_ge [of s sep] by (auto simp: Let_def)
    ultimately show ?thesis using Cons.IH by simp
  qed
qed

lemma LastIndex_ge: "LastIndex s sep \<ge> -1"
  by (induction s) (auto simp: Let_def)

lemma LastIndex_none_iff: "LastIndex s sep = -1 \<longleftrightarrow> \<not> (\<exists>pre post. s = pre @ sep @ post)"
proof (induction s)
  case Nil
  show ?case by auto
next
  case (Cons c s)
  have split: "(\<exists>pre post. c # s = pre @ sep @ post)
      \<longleftrightarrow> prefix sep (c # s) \<or> (\<exists>pre post. s = pre @ sep @ post)"
  proof
    assume "\<exists>pre post. c # s = pre @ sep @ post"
    then obtain pre post where e: "c # s = pre @ sep @ post" by blast
    show "prefix sep (c # s) \<or> (\<exists>pre post. s = pre @ sep @ post)"
    proof (cases pre)
      case Nil
      with e show ?thesis by (auto simp: prefix_def)
    next
      case (Cons p pre')
      with e have "s = pre' @ sep @ post" by simp
      then show ?thesis by blast
    qed
  next
    assume "prefix sep (c # s) \<or> (\<exists>pre post. s = pre @ sep @ post)"
    then show "\<exists>pre post. c # s = pre @ sep @ post"
    proof
      assume "prefix sep (c # s)"
      then obtain post where "c # s = [] @ sep @ post" by (auto simp: prefix_def)
      then show ?thesis by blast
    next
      assume "\<exists>pre post. s = pre @ sep @ post"
      then obtain pre post where "s = pre @ sep @ post" by blast
      then have "c # s = (c # pre) @ sep @ post" by simp
      then show ?thesis by blast
    qed
  qed
  have "LastIndex (c # s) sep = -1 \<longleftrightarrow> LastIndex s sep = -1 \<and> \<not> prefix sep (c # s)"
    using LastIndex_ge [of s sep] by (auto simp: Let_def)
  with Cons.IH split show ?case by blast
qed

lemma IndexAny_ge: "IndexAny s chars \<ge> -1"
  by (induction s) (auto simp: Let_def)

lemma IndexAny_none_iff: "IndexAny s chars = -1 \<longleftrightarrow> set s \<inter> set chars = {}"
proof (induction s)
  case Nil
  show ?case by simp
next
  case (Cons c s)
  have "IndexAny (c # s) chars = -1 \<longleftrightarrow> c \<notin> set chars \<and> IndexAny s chars = -1"
    using IndexAny_ge [of s chars] by (auto simp: Let_def)
  with Cons.IH show ?case by auto
qed

lemma IndexAny_zero_iff: "IndexAny s chars = 0 \<longleftrightarrow> s \<noteq> [] \<and> hd s \<in> set chars"
proof (cases s)
  case Nil
  then show ?thesis by simp
next
  case (Cons c t)
  then show ?thesis using IndexAny_ge [of t chars] by (auto simp: Let_def)
qed

subsection \<open>The lines that cannot be parsed\<close>

lemma keyQuote_of_cases:
  "keyQuote_of line = [] \<or> keyQuote_of line = [DQ] \<or> keyQuote_of line = [BQ]
   \<or> keyQuote_of line = [DQ, DQ, DQ]"
  by (simp add: keyQuote_of_def)

text \<open>The closing quote marker is no delimiter: after a quoted key, the index of the
  delimiter from the closing marker is never 0.\<close>

lemma closing_quote_no_delimiter:
  assumes q: "keyQuote_of line \<noteq> []"
    and p: "Index (drop (length (keyQuote_of line)) line) (keyQuote_of line) \<noteq> -1"
  shows "IndexAny (drop (nat (Index (drop (length (keyQuote_of line)) line) (keyQuote_of line)
            + int (length (keyQuote_of line)))) line) ''=:'' \<noteq> 0"
proof -
  let ?q = "keyQuote_of line"
  let ?p = "Index (drop (length ?q) line) ?q"
  have "0 \<le> ?p" using p Index_ge [of "drop (length ?q) line" ?q] by linarith
  then have n: "nat (?p + int (length ?q)) = nat ?p + length ?q" by simp
  have "prefix ?q (drop (nat ?p) (drop (length ?q) line))"
    using p by (rule Index_prefix)
  then have pre: "prefix ?q (drop (nat (?p + int (length ?q))) line)"
    by (simp add: n)
  from q keyQuote_of_cases [of line] obtain c cs where qc: "?q = c # cs" "c = DQ \<or> c = BQ"
    by auto
  with pre obtain rest where "drop (nat (?p + int (length ?q))) line = c # rest"
    by (auto simp: prefix_def)
  then have "hd (drop (nat (?p + int (length ?q))) line) = c" by simp
  moreover have "c \<notin> set ''=:''" using qc(2) by auto
  ultimately show ?thesis unfolding IndexAny_zero_iff by metis
qed

text \<open>
  Claim C8, as amended. For every key/value line, the parse fails exactly in these
  cases, and then with \<open>ERR_COULD_NOT_PARSE\<close> and the line:
  the line opens with a quote marker (\<open>keyQuote_of\<close>: three double quotes when the
  line has six bytes or more, one double quote, or a backtick) that does not occur
  again after the opening one;
  or the closing marker of the key is found and no \<open>=\<close> or \<open>:\<close> follows it;
  or the line opens with no quote marker and has no \<open>=\<close> or \<open>:\<close>, or has one at
  position 0;
  or the key is parsed, and the text after the delimiter, trimmed, opens with a quote
  marker of values (\<open>valQuote_of\<close>: a backtick when the text has two bytes or more,
  three double quotes when it has six or more) that does not occur again after the
  opening one.
  (The claim as stated leaves out the second and the last case; the last theorem of this
  subsection is a line of the last case.)
\<close>

theorem keyValue_fails_iff:
  assumes "line \<noteq> []"
  shows "((\<exists>err. keyValue line n = Inl err) \<longleftrightarrow>
           (keyQuote_of line \<noteq> []
              \<and> Index (drop (length (keyQuote_of line)) line) (keyQuote_of line) = -1)
         \<or> (keyQuote_of line \<noteq> []
              \<and> Index (drop (length (keyQuote_of line)) line) (keyQuote_of line) \<noteq> -1
              \<and> IndexAny
                   (drop (nat (Index (drop (length (keyQuote_of line)) line) (keyQuote_of line)
                      + int (length (keyQuote_of line)))) line) ''=:'' = -1)
         \<or> (keyQuote_of line = [] \<and> IndexAny line ''=:'' = -1)
         \<or> (keyQuote_of line = [] \<and> IndexAny line ''=:'' = 0)
         \<or> (\<exists>i key. splitKey line = Some (i, key)
              \<and> valQuote_of (TrimSpace (drop (nat (i + 1)) line)) \<noteq> []
              \<and> LastIndex
                   (drop (length (valQuote_of (TrimSpace (drop (nat (i + 1)) line))))
                      (TrimSpace (drop (nat (i + 1)) line)))
                   (valQuote_of (TrimSpace (drop (nat (i + 1)) line))) = -1))
     \<and> (\<forall>err. keyValue line n = Inl err \<longrightarrow> err = readError ERR_COULD_NOT_PARSE line)"
proof
  let ?q = "keyQuote_of line"
  let ?p = "Index (drop (length ?q) line) ?q"
  let ?d = "IndexAny (drop (nat (?p + int (length ?q))) line) ''=:''"
  have key: "splitKey line = None \<longleftrightarrow>
      (?q \<noteq> [] \<and> ?p = -1) \<or> (?q \<noteq> [] \<and> ?p \<noteq> -1 \<and> ?d = -1)
      \<or> (?q = [] \<and> IndexAny line ''=:'' = -1) \<or> (?q = [] \<and> IndexAny line ''=:'' = 0)"
  proof (cases "?q = []")
    case True
    then show ?thesis
      using IndexAny_ge [of line "''=:''"] by (auto simp: splitKey_def Let_def)
  next
    case False
    show ?thesis
    proof (cases "?p = -1")
      case True
      with False show ?thesis by (simp add: splitKey_def Let_def)
    next
      case p: False
      have "?d \<noteq> 0" using False p by (rule closing_quote_no_delimiter)
      moreover have "?d \<ge> -1" by (rule IndexAny_ge)
      ultimately have "?d \<le> 0 \<longleftrightarrow> ?d = -1" by linarith
      with False p show ?thesis by (simp add: splitKey_def Let_def)
    qed
  qed
  have val: "\<And>r. splitValue r = None \<longleftrightarrow>
      valQuote_of r \<noteq> [] \<and> LastIndex (drop (length (valQuote_of r)) r) (valQuote_of r) = -1"
    by (simp add: splitValue_def Let_def)
  show "(\<exists>err. keyValue line n = Inl err) \<longleftrightarrow>
         (?q \<noteq> [] \<and> ?p = -1) \<or> (?q \<noteq> [] \<and> ?p \<noteq> -1 \<and> ?d = -1)
         \<or> (?q = [] \<and> IndexAny line ''=:'' = -1) \<or> (?q = [] \<and> IndexAny line ''=:'' = 0)
         \<or> (\<exists>i key. splitKey line = Some (i, key)
              \<and> valQuote_of (TrimSpace (drop (nat (i + 1)) line)) \<noteq> []
              \<and> LastIndex
                   (drop (length (valQuote_of (TrimSpace (drop (nat (i + 1)) line))))
                      (TrimSpace (drop (nat (i + 1)) line)))
                   (valQuote_of (TrimSpace (drop (nat (i + 1)) line))) = -1)"
  proof (cases "splitKey line")
    case None
    then have "\<exists>err. keyValue line n = Inl err" by (simp add: keyValue_def)
    with None key show ?thesis by auto
  next
    case (Some ik)
    obtain i key0 where ik: "ik = (i, key0)" by (cases ik)
    have "(\<exists>err. keyValue line n = Inl err)
        \<longleftrightarrow> splitValue (TrimSpace (drop (nat (i + 1)) line)) = None"
      using Some ik by (auto simp: keyValue_def Let_def split: option.splits if_splits)
    with Some ik key val show ?thesis by auto
  qed
  show "\<forall>err. keyValue line n = Inl err \<longrightarrow> err = readError ERR_COULD_NOT_PARSE line"
    by (auto simp: keyValue_def Let_def split: option.splits if_splits prod.splits)
qed

theorem keyValue_fails_iff_witness:
  "keyValue ''abc'' 1 = Inl (readError ERR_COULD_NOT_PARSE ''abc'')
   \<and> \<not> (\<exists>err. keyValue ''k=v'' 1 = Inl err)"
proof
  have "keyQuote_of ''abc'' = [] \<and> IndexAny ''abc'' ''=:'' = -1"
    by (simp add: keyQuote_of_def)
  moreover have ne: "''abc'' \<noteq> []" by simp
  ultimately have "\<exists>err. keyValue ''abc'' 1 = Inl err"
    using keyValue_fails_iff [OF ne, of 1] by blast
  then show "keyValue ''abc'' 1 = Inl (readError ERR_COULD_NOT_PARSE ''abc'')"
    using keyValue_fails_iff [OF ne, of 1] by blast
next
  have ne: "''k=v'' \<noteq> []" by simp
  have q: "keyQuote_of ''k=v'' = []" by (simp add: keyQuote_of_def)
  have d: "IndexAny ''k=v'' ''=:'' = 1" by simp
  have k: "splitKey ''k=v'' = Some (1, ''k'')" by code_simp
  have v: "valQuote_of (TrimSpace (drop (nat (1 + 1)) ''k=v'')) = []" by code_simp
  show "\<not> (\<exists>err. keyValue ''k=v'' 1 = Inl err)"
    unfolding keyValue_fails_iff [OF ne, of 1, THEN conjunct1]
    using q d k v by auto
qed

text \<open>The line \<open>k=`abc\<close> opens with no quote marker and has its delimiter at position 1;
  the parse fails on the backtick of the value, which is not closed.\<close>

theorem unterminated_value_quote:
  "keyValue (''k='' @ [BQ] @ ''abc'') 1
     = Inl (readError ERR_COULD_NOT_PARSE (''k='' @ [BQ] @ ''abc''))
   \<and> keyQuote_of (''k='' @ [BQ] @ ''abc'') = []
   \<and> IndexAny (''k='' @ [BQ] @ ''abc'') ''=:'' = 1"
  by code_simp

subsection \<open>One turn of the loop, by the kind of the line\<close>

lemma setKeyComments_data [simp]: "data (snd (setKeyComments c sect key text)) = data c"
  by (simp add: setKeyComments_def Let_def)

lemma setSectionComments_data [simp]: "data (snd (setSectionComments c sect text)) = data c"
  by (simp add: setSectionComments_def Let_def)

lemma processLine_section:
  "section_line line \<Longrightarrow>
   \<exists>st'. processLine lb line st = Inr (Continue, st') \<and> count st' = 1
     \<and> cur_section st' = TrimSpace (take (length line - 1 - 1) (drop 1 line))"
  by (auto simp: section_line_def processLine_def Let_def)

lemma processLine_skipped:
  "line = [] \<or> hd line = CHR ''#'' \<or> hd line = CHR '';'' \<Longrightarrow>
   \<exists>st'. processLine lb line st = Inr (Continue, st') \<and> count st' = count st
     \<and> cur_section st' = cur_section st \<and> conf st' = conf st"
  by (auto simp: processLine_def)

lemma processLine_key_value:
  assumes "key_value_line line" and "cur_section st \<noteq> []"
  shows "processLine lb line st =
     (case keyValue line (count st) of
        Inl err \<Rightarrow> Inl err
      | Inr (key, val, count') \<Rightarrow>
          Inr (Leave,
            st\<lparr>conf := (if length (comments st) > 0
                         then snd (setKeyComments (snd (setValue (conf st) (cur_section st) key val))
                                (cur_section st) key (comments st))
                         else snd (setValue (conf st) (cur_section st) key val)),
               count := count', comments := []\<rparr>))"
  using assms
  by (auto simp: key_value_line_def processLine_def Let_def split: sum.splits prod.splits)

lemma Sprint_not_Nil: "''#'' @ Sprint n \<noteq> []"
  by simp

subsection \<open>The keys written \<open>-\<close>\<close>

text \<open>
  Claim C7. A section header sets the counter to 1. A key/value line whose key is
  \<open>-\<close> is stored in the current section under \<open>#\<close> and the decimal digits of the
  counter, and adds 1 to the counter; a key/value line with another key, an empty
  line and a comment leave the counter as it is. The counter starts at 1: the file
  \<open>dash_conf\<close> is read without error into \<open>#1\<close> for \<open>first\<close> and \<open>#2\<close> for \<open>second\<close>
  in section \<open>s\<close>, and \<open>reset_conf\<close> into \<open>#1\<close> and \<open>#2\<close> in DEFAULT and \<open>#1\<close> for
  \<open>third\<close> in section \<open>t\<close>.
\<close>

theorem auto_increment_keys:
  "(section_line line \<longrightarrow>
      (\<exists>st'. processLine lb line st = Inr (Continue, st') \<and> count st' = 1))
   \<and> (key_value_line line \<and> cur_section st \<noteq> [] \<and> splitKey line = Some (i, ''-'')
        \<and> splitValue (TrimSpace (drop (nat (i + 1)) line)) = Some v \<longrightarrow>
      (\<exists>st'. processLine lb line st = Inr (Leave, st') \<and> count st' = count st + 1
         \<and> cur_section st' = cur_section st
         \<and> inner (data (conf st')) (cur_section st) (''#'' @ Sprint (count st)) = Some v))
   \<and> (key_value_line line \<and> cur_section st \<noteq> [] \<and> splitKey line = Some (i, key0)
        \<and> key0 \<noteq> ''-'' \<longrightarrow>
      (\<forall>fl st'. processLine lb line st = Inr (fl, st') \<longrightarrow> count st' = count st))
   \<and> (line = [] \<or> hd line = CHR ''#'' \<or> hd line = CHR '';'' \<longrightarrow>
      (\<exists>st'. processLine lb line st = Inr (Continue, st') \<and> count st' = count st))
   \<and> fst (read [NL] (newConfigFile [''conf/app.conf'']) dash_conf) = None
   \<and> inner (data (snd (read [NL] (newConfigFile [''conf/app.conf'']) dash_conf))) ''s'' ''#1'' = Some ''first''
   \<and> inner (data (snd (read [NL] (newConfigFile [''conf/app.conf'']) dash_conf))) ''s'' ''#2'' = Some ''second''
   \<and> inner (data (snd (read [NL] (newConfigFile [''conf/app.conf'']) reset_conf))) ''DEFAULT'' ''#1'' = Some ''zero''
   \<and> inner (data (snd (read [NL] (newConfigFile [''conf/app.conf'']) reset_conf))) ''DEFAULT'' ''#2'' = Some ''one''
   \<and> inner (data (snd (read [NL] (newConfigFile [''conf/app.conf'']) reset_conf))) ''t'' ''#1'' = Some ''third''"
proof (intro conjI impI)
  assume "section_line line"
  then show "\<exists>st'. processLine lb line st = Inr (Continue, st') \<and> count st' = 1"
    using processLine_section [of line lb st] by blast
next
  assume a: "key_value_line line \<and> cur_section st \<noteq> [] \<and> splitKey line = Some (i, ''-'')
        \<and> splitValue (TrimSpace (drop (nat (i + 1)) line)) = Some v"
  then have kv: "keyValue line (count st) = Inr (''#'' @ Sprint (count st), v, count st + 1)"
    by (simp add: keyValue_def)
  have n: "norm_section (cur_section st) = cur_section st"
    using a by (simp add: norm_section_def)
  have "inner (data (snd (setValue (conf st) (cur_section st) (''#'' @ Sprint (count st)) v)))
          (cur_section st) (''#'' @ Sprint (count st)) = Some v"
    using setValue_data [OF Sprint_not_Nil, of "conf st" "cur_section st" "count st" v]
    by (simp add: n inner_def)
  then show "\<exists>st'. processLine lb line st = Inr (Leave, st') \<and> count st' = count st + 1
         \<and> cur_section st' = cur_section st
         \<and> inner (data (conf st')) (cur_section st) (''#'' @ Sprint (count st)) = Some v"
    using a kv by (simp add: processLine_key_value)
next
  assume a: "key_value_line line \<and> cur_section st \<noteq> [] \<and> splitKey line = Some (i, key0)
        \<and> key0 \<noteq> ''-''"
  show "\<forall>fl st'. processLine lb line st = Inr (fl, st') \<longrightarrow> count st' = count st"
    using a
    by (auto simp: processLine_key_value keyValue_def Let_def split: option.splits sum.splits)
next
  assume "line = [] \<or> hd line = CHR ''#'' \<or> hd line = CHR '';''"
  then show "\<exists>st'. processLine lb line st = Inr (Continue, st') \<and> count st' = count st"
    using processLine_skipped [of line lb st] by blast
next
  show "fst (read [NL] (newConfigFile [''conf/app.conf'']) dash_conf) = None"
    unfolding dash_conf_def by code_simp
  show "inner (data (snd (read [NL] (newConfigFile [''conf/app.conf'']) dash_conf))) ''s'' ''#1'' = Some ''first''"
    unfolding dash_conf_def by code_simp
  show "inner (data (snd (read [NL] (newConfigFile [''conf/app.conf'']) dash_conf))) ''s'' ''#2'' = Some ''second''"
    unfolding dash_conf_def by code_simp
  show "inner (data (snd (read [NL] (newConfigFile [''conf/app.conf'']) reset_conf))) ''DEFAULT'' ''#1'' = Some ''zero''"
    unfolding reset_conf_def by code_simp
  show "inner (data (snd (read [NL] (newConfigFile [''conf/app.conf'']) reset_conf))) ''DEFAULT'' ''#2'' = Some ''one''"
    unfolding reset_conf_def by code_simp
  show "inner (data (snd (read [NL] (newConfigFile [''conf/app.conf'']) reset_conf))) ''t'' ''#1'' = Some ''third''"
    unfolding reset_conf_def by code_simp
qed

theorem auto_increment_keys_witness:
  "(\<exists>st'. processLine [NL] ''-=v'' counting_state = Inr (Leave, st') \<and> count st' = 4
       \<and> inner (data (conf st')) ''a'' ''#3'' = Some ''v'')
   \<and> (\<exists>st'. processLine [NL] ''[b]'' counting_state = Inr (Continue, st') \<and> count st' = 1)
   \<and> (\<exists>st'. processLine [NL] ''k=v'' counting_state = Inr (Leave, st') \<and> count st' = 3)
   \<and> (\<exists>st'. processLine [NL] ''# note'' counting_state = Inr (Continue, st')
         \<and> count st' = 3)"
proof (intro conjI)
  note th = auto_increment_keys [of "''-=v''" "[NL]" counting_state 1 "''v''"]
  have "key_value_line ''-=v'' \<and> cur_section counting_state \<noteq> []
      \<and> splitKey ''-=v'' = Some (1, ''-'')
      \<and> splitValue (TrimSpace (drop (nat (1 + 1)) ''-=v'')) = Some ''v''"
    unfolding counting_state_def by code_simp
  with th obtain st' where "processLine [NL] ''-=v'' counting_state = Inr (Leave, st')"
    and "count st' = count counting_state + 1"
    and "inner (data (conf st')) (cur_section counting_state)
           (''#'' @ Sprint (count counting_state)) = Some ''v''"
    by blast
  moreover have "Sprint 3 = ''3''" by code_simp
  ultimately show "\<exists>st'. processLine [NL] ''-=v'' counting_state = Inr (Leave, st')
      \<and> count st' = 4 \<and> inner (data (conf st')) ''a'' ''#3'' = Some ''v''"
    by (simp add: counting_state_def)
next
  have "section_line ''[b]''" by (simp add: section_line_def)
  then show "\<exists>st'. processLine [NL] ''[b]'' counting_state = Inr (Continue, st') \<and> count st' = 1"
    using auto_increment_keys [of "''[b]''" "[NL]" counting_state] by blast
next
  note th = auto_increment_keys [of "''k=v''" "[NL]" counting_state 1 _ "''k''"]
  have "key_value_line ''k=v'' \<and> cur_section counting_state \<noteq> []
      \<and> splitKey ''k=v'' = Some (1, ''k'') \<and> ''k'' \<noteq> ''-''"
    unfolding counting_state_def by code_simp
  with th have keep: "\<forall>fl st'. processLine [NL] ''k=v'' counting_state = Inr (fl, st')
      \<longrightarrow> count st' = count counting_state" by blast
  have kv: "keyValue ''k=v'' 3 = Inr (''k'', ''v'', 3)" by code_simp
  have "key_value_line ''k=v''" "cur_section counting_state \<noteq> []"
    by (simp_all add: key_value_line_def counting_state_def)
  then have "\<exists>st'. processLine [NL] ''k=v'' counting_state = Inr (Leave, st')"
    by (simp add: processLine_key_value) (simp add: counting_state_def kv)
  with keep show "\<exists>st'. processLine [NL] ''k=v'' counting_state = Inr (Leave, st')
      \<and> count st' = 3"
    by (auto simp: counting_state_def)
next
  have "''# note'' = [] \<or> hd ''# note'' = CHR ''#'' \<or> hd ''# note'' = CHR '';''" by simp
  then have "\<exists>st'. processLine [NL] ''# note'' counting_state = Inr (Continue, st')
      \<and> count st' = count counting_state"
    using auto_increment_keys [of "''# note''" "[NL]" counting_state] by blast
  then show "\<exists>st'. processLine [NL] ''# note'' counting_state = Inr (Continue, st')
      \<and> count st' = 3"
    by (simp add: counting_state_def)
qed

subsection \<open>The error for a blank section name\<close>

text \<open>The trimmed line and what is left of the input hold only bytes of the input; an
  input without \<open>[\<close> has no section header.\<close>

lemma trimLeftSpace_subset: "set (trimLeftSpace s) \<subseteq> set s"
proof (induction s rule: trimLeftSpace.induct)
  case (1 s)
  show ?case
  proof (cases "leadingSpace s = 0")
    case True
    then show ?thesis by (simp add: trimLeftSpace.simps [of s])
  next
    case False
    with 1 have "set (trimLeftSpace (drop (leadingSpace s) s)) \<subseteq> set (drop (leadingSpace s) s)"
      by simp
    also have "\<dots> \<subseteq> set s" by (rule set_drop_subset)
    finally show ?thesis using False by (simp add: trimLeftSpace.simps [of s])
  qed
qed

lemma trimRightSpace_subset: "set (trimRightSpace s) \<subseteq> set s"
proof (induction s rule: trimRightSpace.induct)
  case (1 s)
  show ?case
  proof (cases "trailingSpace s = 0")
    case True
    then show ?thesis by (simp add: trimRightSpace.simps [of s])
  next
    case False
    with 1 have "set (trimRightSpace (take (length s - trailingSpace s) s))
        \<subseteq> set (take (length s - trailingSpace s) s)"
      by simp
    also have "\<dots> \<subseteq> set s" by (rule set_take_subset)
    finally show ?thesis using False by (simp add: trimRightSpace.simps [of s])
  qed
qed

lemma TrimSpace_subset: "set (TrimSpace s) \<subseteq> set s"
  unfolding TrimSpace_def using trimRightSpace_subset trimLeftSpace_subset by blast

lemma ReadString_subset:
  assumes "ReadString buf = (line0, rest, eof)"
  shows "set line0 \<subseteq> set buf" and "set rest \<subseteq> set buf"
proof -
  have b: "buf = takeWhile (\<lambda>c. c \<noteq> NL) buf @ dropWhile (\<lambda>c. c \<noteq> NL) buf" by simp
  show "set line0 \<subseteq> set buf"
  proof (cases "dropWhile (\<lambda>c. c \<noteq> NL) buf")
    case Nil
    with assms show ?thesis by (simp add: ReadString_def)
  next
    case (Cons nl r)
    with assms have "line0 = takeWhile (\<lambda>c. c \<noteq> NL) buf @ [nl]" by (simp add: ReadString_def)
    moreover have "nl \<in> set buf" using Cons b by (metis in_set_conv_decomp)
    ultimately show ?thesis by (auto dest: set_takeWhileD)
  qed
  show "set rest \<subseteq> set buf"
  proof (cases "dropWhile (\<lambda>c. c \<noteq> NL) buf")
    case Nil
    with assms show ?thesis by (simp add: ReadString_def)
  next
    case (Cons nl r)
    with assms have "rest = r" by (simp add: ReadString_def)
    moreover have "set (dropWhile (\<lambda>c. c \<noteq> NL) buf) \<subseteq> set buf"
      by (metis b set_append sup_ge2)
    ultimately show ?thesis using Cons by auto
  qed
qed

lemma processLine_blank_section:
  "processLine lb line st = Inl (readError ERR_BLANK_SECTION_NAME l)
     \<longleftrightarrow> key_value_line line \<and> cur_section st = [] \<and> l = line"
  by (auto simp: processLine_def key_value_line_def keyValue_def Let_def
      split: option.splits sum.splits prod.splits if_splits)

lemma processLine_section_kept:
  assumes "processLine lb line st = Inr (fl, st')" and "\<not> section_line line"
  shows "cur_section st' = cur_section st"
  using assms
  by (auto simp: processLine_def section_line_def Let_def
      split: option.splits sum.splits prod.splits if_splits)

lemma processLine_section_set:
  assumes "processLine lb line st = Inr (fl, st')" and "section_line line"
  shows "cur_section st' = TrimSpace (take (length line - 1 - 1) (drop 1 line))"
  using assms processLine_section [of line lb st] by auto

lemma no_bracket_no_section: "CHR ''['' \<notin> set line \<Longrightarrow> \<not> section_line line"
  by (cases line) (auto simp: section_line_def)

lemma read_loop_unfold:
  "ReadString buf = (line0, rest, eof) \<Longrightarrow>
   read_loop lb buf st =
     (if eof \<and> length (TrimSpace line0) = 0 then (None, st)
      else (case processLine lb (TrimSpace line0) st of
              Inl err \<Rightarrow> (Some err, st)
            | Inr (Continue, st') \<Rightarrow> read_loop lb rest st'
            | Inr (Leave, st') \<Rightarrow> if eof then (None, st') else read_loop lb rest st'))"
  by (simp add: read_loop.simps [of lb buf st] Let_def)

lemma read_loop_never_blank:
  "CHR ''['' \<notin> set buf \<Longrightarrow> cur_section st \<noteq> [] \<Longrightarrow>
   fst (read_loop lb buf st) \<noteq> Some (readError ERR_BLANK_SECTION_NAME l)"
proof (induction lb buf st rule: read_loop.induct)
  case (1 lb buf st)
  obtain line0 rest eof where rs: "ReadString buf = (line0, rest, eof)"
    by (cases "ReadString buf") auto
  let ?line = "TrimSpace line0"
  have sub: "CHR ''['' \<notin> set ?line" "CHR ''['' \<notin> set rest"
    using ReadString_subset [OF rs] TrimSpace_subset [of line0] "1.prems"(1) by auto
  show ?case
  proof (cases "eof \<and> length ?line = 0")
    case True
    then show ?thesis by (simp add: read_loop_unfold [OF rs])
  next
    case False
    show ?thesis
    proof (cases "processLine lb ?line st")
      case (Inl err)
      then have "err \<noteq> readError ERR_BLANK_SECTION_NAME l"
        using "1.prems"(2) processLine_blank_section [of lb ?line st l] by auto
      with Inl False show ?thesis by (simp add: read_loop_unfold [OF rs])
    next
      case (Inr r)
      obtain fl st' where r: "r = (fl, st')" by (cases r)
      have keep: "cur_section st' \<noteq> []"
        using processLine_section_kept [of lb ?line st fl st'] Inr r
          no_bracket_no_section [OF sub(1)] "1.prems"(2) by simp
      show ?thesis
      proof (cases fl)
        case Continue
        have "fst (read_loop lb rest st') \<noteq> Some (readError ERR_BLANK_SECTION_NAME l)"
          using "1.IH"(1) [of line0 "(rest, eof)" rest eof ?line "(fl, st')" fl st']
            rs False Inr r Continue sub(2) keep by simp
        then show ?thesis
          using Inr r False Continue by (simp add: read_loop_unfold [OF rs])
      next
        case Leave
        show ?thesis
        proof (cases eof)
          case True
          then show ?thesis
            using Inr r False Leave by (simp add: read_loop_unfold [OF rs])
        next
          case neof: False
          have "fst (read_loop lb rest st') \<noteq> Some (readError ERR_BLANK_SECTION_NAME l)"
            using "1.IH"(2) [of line0 "(rest, eof)" rest eof ?line "(fl, st')" fl st']
              rs False Inr r Leave neof sub(2) keep by simp
          then show ?thesis
            using Inr r False Leave neof by (simp add: read_loop_unfold [OF rs])
        qed
      qed
    qed
  qed
qed

lemma skipBOM_subset: "set (skipBOM input) \<subseteq> set input"
  by (auto simp: skipBOM_def dest: in_set_dropD)

text \<open>The loop of \<open>read\<close> is \<open>run_lines\<close> on the lines of the input.\<close>

lemma TrimSpace_Nil: "TrimSpace [] = []"
  by (simp add: TrimSpace_def trimLeftSpace.simps [of "[]"] trimRightSpace.simps [of "[]"]
      leadingSpace_def trailingSpace_def)

lemma read_loop_Nil: "read_loop lb [] st = (None, st)"
proof -
  have "ReadString [] = ([], [], True)" by (simp add: ReadString_def)
  then show ?thesis by (simp add: read_loop_unfold TrimSpace_Nil)
qed

lemma read_loop_lines: "read_loop lb buf st = run_lines lb (input_lines buf) st"
proof (induction buf arbitrary: st rule: input_lines.induct)
  case (1 buf)
  obtain line0 rest eof where rs: "ReadString buf = (line0, rest, eof)"
    by (cases "ReadString buf") auto
  show ?case
  proof (cases eof)
    case True
    then have "rest = []" using rs by (auto simp: ReadString_def split: list.splits)
    with True rs show ?thesis
      by (auto simp: read_loop_unfold [OF rs] input_lines.simps [of buf] read_loop_Nil
          split: sum.splits flow.splits)
  next
    case False
    with rs 1 have ih: "\<And>st. read_loop lb rest st = run_lines lb (input_lines rest) st"
      by simp
    from False rs show ?thesis
      by (auto simp: read_loop_unfold [OF rs] input_lines.simps [of buf] ih
          split: sum.splits flow.splits)
  qed
qed

lemma read_lines:
  "read lb c input =
     (case run_lines lb (input_lines (skipBOM input)) (start_state c) of
        (err, st) \<Rightarrow> (err, conf st))"
  by (simp add: read_def read_loop_lines start_state_def)

lemma run_lines_append:
  "run_lines lb (pre @ ls) st =
     (case run_lines lb pre st of
        (None, st') \<Rightarrow> run_lines lb ls st'
      | (Some err, st') \<Rightarrow> (Some err, st'))"
  by (induction pre arbitrary: st) (auto split: sum.splits prod.splits option.splits)

lemma run_lines_error_iff:
  "fst (run_lines lb ls st) = Some err \<longleftrightarrow>
     (\<exists>pre line post st'. ls = pre @ line # post \<and> run_lines lb pre st = (None, st')
        \<and> processLine lb line st' = Inl err)"
proof (induction ls arbitrary: st)
  case Nil
  show ?case by simp
next
  case (Cons x xs)
  show ?case
  proof (cases "processLine lb x st")
    case (Inl e)
    have "(\<exists>pre line post st'. x # xs = pre @ line # post \<and> run_lines lb pre st = (None, st')
        \<and> processLine lb line st' = Inl err) \<longleftrightarrow> e = err"
    proof
      assume "\<exists>pre line post st'. x # xs = pre @ line # post \<and> run_lines lb pre st = (None, st')
        \<and> processLine lb line st' = Inl err"
      then obtain pre line post st' where e: "x # xs = pre @ line # post"
        and r: "run_lines lb pre st = (None, st')" and p: "processLine lb line st' = Inl err"
        by blast
      show "e = err"
      proof (cases pre)
        case Nil
        with e r p Inl show ?thesis by simp
      next
        case (Cons y ys)
        with e have "y = x" by simp
        with Cons r Inl show ?thesis by simp
      qed
    next
      assume "e = err"
      with Inl have "x # xs = [] @ x # xs \<and> run_lines lb [] st = (None, st)
          \<and> processLine lb x st = Inl err" by simp
      then show "\<exists>pre line post st'. x # xs = pre @ line # post
          \<and> run_lines lb pre st = (None, st') \<and> processLine lb line st' = Inl err"
        by blast
    qed
    with Inl show ?thesis by auto
  next
    case (Inr r)
    obtain fl st1 where r: "r = (fl, st1)" by (cases r)
    have "(\<exists>pre line post st'. x # xs = pre @ line # post \<and> run_lines lb pre st = (None, st')
        \<and> processLine lb line st' = Inl err)
      \<longleftrightarrow> (\<exists>pre line post st'. xs = pre @ line # post \<and> run_lines lb pre st1 = (None, st')
        \<and> processLine lb line st' = Inl err)"
    proof
      assume "\<exists>pre line post st'. x # xs = pre @ line # post \<and> run_lines lb pre st = (None, st')
        \<and> processLine lb line st' = Inl err"
      then obtain pre line post st' where e: "x # xs = pre @ line # post"
        and rn: "run_lines lb pre st = (None, st')" and p: "processLine lb line st' = Inl err"
        by blast
      show "\<exists>pre line post st'. xs = pre @ line # post \<and> run_lines lb pre st1 = (None, st')
        \<and> processLine lb line st' = Inl err"
      proof (cases pre)
        case Nil
        with e rn p Inr show ?thesis by simp
      next
        case (Cons y ys)
        with e have "y = x" "xs = ys @ line # post" by simp_all
        moreover from Cons \<open>y = x\<close> rn Inr r have "run_lines lb ys st1 = (None, st')" by simp
        ultimately show ?thesis using p by blast
      qed
    next
      assume "\<exists>pre line post st'. xs = pre @ line # post \<and> run_lines lb pre st1 = (None, st')
        \<and> processLine lb line st' = Inl err"
      then obtain pre line post st' where e: "xs = pre @ line # post"
        and rn: "run_lines lb pre st1 = (None, st')" and p: "processLine lb line st' = Inl err"
        by blast
      have "x # xs = (x # pre) @ line # post" using e by simp
      moreover have "run_lines lb (x # pre) st = (None, st')" using rn Inr r by simp
      ultimately show "\<exists>pre line post st'. x # xs = pre @ line # post
          \<and> run_lines lb pre st = (None, st') \<and> processLine lb line st' = Inl err"
        using p by blast
    qed
    with Inr r Cons.IH [of st1] show ?thesis by simp
  qed
qed

lemma run_lines_section_kept:
  "\<forall>h \<in> set pre. \<not> section_line h \<Longrightarrow> run_lines lb pre st = (None, st') \<Longrightarrow>
   cur_section st' = cur_section st"
proof (induction pre arbitrary: st)
  case Nil
  then show ?case by simp
next
  case (Cons x xs)
  from Cons.prems(2) obtain fl st1 where p: "processLine lb x st = Inr (fl, st1)"
    and r: "run_lines lb xs st1 = (None, st')"
    by (auto split: sum.splits prod.splits)
  have "cur_section st1 = cur_section st"
    using p Cons.prems(1) by (auto dest: processLine_section_kept)
  moreover have "cur_section st' = cur_section st1"
    using Cons.IH [OF _ r] Cons.prems(1) by simp
  ultimately show ?case by simp
qed

lemma run_lines_section_named:
  "\<forall>h \<in> set pre. section_line h \<longrightarrow> TrimSpace (take (length h - 1 - 1) (drop 1 h)) \<noteq> [] \<Longrightarrow>
   cur_section st \<noteq> [] \<Longrightarrow> run_lines lb pre st = (None, st') \<Longrightarrow> cur_section st' \<noteq> []"
proof (induction pre arbitrary: st)
  case Nil
  then show ?case by simp
next
  case (Cons x xs)
  from Cons.prems(3) obtain fl st1 where p: "processLine lb x st = Inr (fl, st1)"
    and r: "run_lines lb xs st1 = (None, st')"
    by (auto split: sum.splits prod.splits)
  have "cur_section st1 \<noteq> []"
  proof (cases "section_line x")
    case True
    have "cur_section st1 = TrimSpace (take (length x - 1 - 1) (drop 1 x))"
      using p True by (rule processLine_section_set)
    with True Cons.prems(1) show ?thesis by simp
  next
    case False
    with p have "cur_section st1 = cur_section st" by (rule processLine_section_kept)
    with Cons.prems(2) show ?thesis by simp
  qed
  then show ?case using Cons.IH [OF _ _ r] Cons.prems(1) by simp
qed

text \<open>An error of the run comes from the first line that fails, after a run without
  error on the lines before it; a run over lines without a header stays in its section,
  and one over headers with non-empty names stays in a section with a name.\<close>

lemma keyValue_error:
  "keyValue line n = Inl err \<Longrightarrow> err = readError ERR_COULD_NOT_PARSE line"
  by (auto simp: keyValue_def Let_def split: option.splits if_splits prod.splits)

lemma read_blank_iff:
  "fst (read lb c input) = Some (readError ERR_BLANK_SECTION_NAME l) \<longleftrightarrow>
     (\<exists>pre post st'. input_lines (skipBOM input) = pre @ l # post
        \<and> run_lines lb pre (start_state c) = (None, st') \<and> cur_section st' = []
        \<and> key_value_line l)"
proof -
  have "fst (read lb c input) = fst (run_lines lb (input_lines (skipBOM input)) (start_state c))"
    by (simp add: read_lines case_prod_beta)
  also have "\<dots> = Some (readError ERR_BLANK_SECTION_NAME l) \<longleftrightarrow>
     (\<exists>pre line post st'. input_lines (skipBOM input) = pre @ line # post
        \<and> run_lines lb pre (start_state c) = (None, st')
        \<and> processLine lb line st' = Inl (readError ERR_BLANK_SECTION_NAME l))"
    by (rule run_lines_error_iff)
  also have "\<dots> \<longleftrightarrow> (\<exists>pre post st'. input_lines (skipBOM input) = pre @ l # post
        \<and> run_lines lb pre (start_state c) = (None, st') \<and> cur_section st' = []
        \<and> key_value_line l)"
    unfolding processLine_blank_section by blast
  finally show ?thesis .
qed

lemma read_named_headers:
  assumes "\<forall>h \<in> set (input_lines (skipBOM input)).
      section_line h \<longrightarrow> TrimSpace (take (length h - 1 - 1) (drop 1 h)) \<noteq> []"
  shows "fst (read lb c input) \<noteq> Some (readError ERR_BLANK_SECTION_NAME l)"
proof
  assume "fst (read lb c input) = Some (readError ERR_BLANK_SECTION_NAME l)"
  then obtain pre post st' where e: "input_lines (skipBOM input) = pre @ l # post"
    and r: "run_lines lb pre (start_state c) = (None, st')" and b: "cur_section st' = []"
    unfolding read_blank_iff by blast
  have "\<forall>h \<in> set pre. section_line h \<longrightarrow> TrimSpace (take (length h - 1 - 1) (drop 1 h)) \<noteq> []"
    using assms e by simp
  moreover have "cur_section (start_state c) \<noteq> []"
    by (simp add: start_state_def DEFAULT_SECTION_def)
  ultimately have "cur_section st' \<noteq> []" using r by (rule run_lines_section_named)
  with b show False by simp
qed

lemma before_any_header:
  assumes lines: "input_lines (skipBOM input) = pre @ line # post"
    and nohdr: "\<forall>h \<in> set pre. \<not> section_line h"
    and run: "run_lines lb pre (start_state c) = (None, st1)"
    and kv: "key_value_line line"
  shows "cur_section st1 = DEFAULT_SECTION"
    and "keyValue line (count st1) = Inl err \<Longrightarrow>
           err = readError ERR_COULD_NOT_PARSE line \<and> fst (read lb c input) = Some err"
    and "keyValue line (count st1) = Inr (key, val, n) \<Longrightarrow>
           \<exists>st2. run_lines lb (pre @ [line]) (start_state c) = (None, st2)
             \<and> (key \<noteq> [] \<longrightarrow> inner (data (conf st2)) DEFAULT_SECTION key = Some val)
             \<and> (key = [] \<longrightarrow> data (conf st2) = data (conf st1))"
proof -
  show sec: "cur_section st1 = DEFAULT_SECTION"
    using run_lines_section_kept [OF nohdr run] by (simp add: start_state_def)
  then have ne: "cur_section st1 \<noteq> []" by (simp add: DEFAULT_SECTION_def)
  note step = processLine_key_value [OF kv ne, of lb]
  { assume f: "keyValue line (count st1) = Inl err"
    then have "processLine lb line st1 = Inl err" by (simp add: step)
    then have "run_lines lb (pre @ line # post) (start_state c) = (Some err, st1)"
      using run by (simp add: run_lines_append)
    then have "fst (read lb c input) = Some err"
      by (simp add: read_lines lines)
    with f show "err = readError ERR_COULD_NOT_PARSE line \<and> fst (read lb c input) = Some err"
      by (simp add: keyValue_error) }
  { assume s: "keyValue line (count st1) = Inr (key, val, n)"
    define c2 where "c2 = (if length (comments st1) > 0
        then snd (setKeyComments (snd (setValue (conf st1) (cur_section st1) key val))
               (cur_section st1) key (comments st1))
        else snd (setValue (conf st1) (cur_section st1) key val))"
    define st2 where "st2 = st1\<lparr>conf := c2, count := n, comments := []\<rparr>"
    have p: "processLine lb line st1 = Inr (Leave, st2)"
      using s by (simp add: step st2_def c2_def)
    have r2: "run_lines lb (pre @ [line]) (start_state c) = (None, st2)"
      using run p by (simp add: run_lines_append)
    have d: "data (conf st2) = data (snd (setValue (conf st1) DEFAULT_SECTION key val))"
      by (simp add: st2_def c2_def sec)
    have n: "norm_section DEFAULT_SECTION = DEFAULT_SECTION"
      by (simp add: norm_section_def DEFAULT_SECTION_def)
    have "key \<noteq> [] \<longrightarrow> inner (data (conf st2)) DEFAULT_SECTION key = Some val"
      by (simp add: d setValue_data n inner_def)
    moreover have "key = [] \<longrightarrow> data (conf st2) = data (conf st1)"
      by (simp add: d setValue_empty_key)
    ultimately show "\<exists>st2. run_lines lb (pre @ [line]) (start_state c) = (None, st2)
             \<and> (key \<noteq> [] \<longrightarrow> inner (data (conf st2)) DEFAULT_SECTION key = Some val)
             \<and> (key = [] \<longrightarrow> data (conf st2) = data (conf st1))"
      using r2 by blast }
qed

text \<open>
  Claim C2, as amended. For every input stream, the parse fails with
  \<open>ERR_BLANK_SECTION_NAME\<close> exactly when the reader, after the lines before it were
  taken without error, meets a key/value line while the name of the current section is
  empty; the error holds that line. The name is \<open>DEFAULT\<close> at the start, and it is empty
  after a turn of the loop only if it was empty before, or the line is a header whose
  name, trimmed, is empty (as \<open>[]\<close>): an input whose headers all have a name, and so
  an input without any header or without \<open>[\<close>, never fails with this error. A
  key/value line with no header before it is taken in section \<open>DEFAULT\<close>: it fails
  with \<open>ERR_COULD_NOT_PARSE\<close> when it cannot be parsed, and otherwise its value is
  stored at its key in \<open>DEFAULT\<close>, or nothing is stored when the key is empty. (The
  claim as stated fails, as the last theorem of this subsection shows.)
\<close>

theorem blank_section_name_error:
  "(key_value_line line \<longrightarrow>
      (processLine lb line st = Inl (readError ERR_BLANK_SECTION_NAME line))
        = (cur_section st = []))
   \<and> (\<forall>l. processLine lb line st = Inl (readError ERR_BLANK_SECTION_NAME l) \<longrightarrow>
          key_value_line line \<and> cur_section st = [] \<and> l = line)
   \<and> (\<forall>fl st'. processLine lb line st = Inr (fl, st') \<and> cur_section st' = [] \<longrightarrow>
          cur_section st = []
          \<or> (section_line line \<and> TrimSpace (take (length line - 1 - 1) (drop 1 line)) = []))
   \<and> (CHR ''['' \<notin> set input \<longrightarrow>
        (\<forall>l. fst (read lb c input) \<noteq> Some (readError ERR_BLANK_SECTION_NAME l)))
   \<and> read lb c input =
        (case run_lines lb (input_lines (skipBOM input)) (start_state c) of
           (err, st') \<Rightarrow> (err, conf st'))
   \<and> (\<forall>l. (fst (read lb c input) = Some (readError ERR_BLANK_SECTION_NAME l)) =
          (\<exists>pre post st'. input_lines (skipBOM input) = pre @ l # post
             \<and> run_lines lb pre (start_state c) = (None, st') \<and> cur_section st' = []
             \<and> key_value_line l))
   \<and> ((\<forall>h \<in> set (input_lines (skipBOM input)).
          section_line h \<longrightarrow> TrimSpace (take (length h - 1 - 1) (drop 1 h)) \<noteq> []) \<longrightarrow>
        (\<forall>l. fst (read lb c input) \<noteq> Some (readError ERR_BLANK_SECTION_NAME l)))
   \<and> (\<forall>pre post st1.
          input_lines (skipBOM input) = pre @ line # post \<and> (\<forall>h \<in> set pre. \<not> section_line h)
            \<and> run_lines lb pre (start_state c) = (None, st1) \<and> key_value_line line \<longrightarrow>
          cur_section st1 = DEFAULT_SECTION
          \<and> (\<forall>err. keyValue line (count st1) = Inl err \<longrightarrow>
                 err = readError ERR_COULD_NOT_PARSE line \<and> fst (read lb c input) = Some err)
          \<and> (\<forall>key val n. keyValue line (count st1) = Inr (key, val, n) \<longrightarrow>
                 (\<exists>st2. run_lines lb (pre @ [line]) (start_state c) = (None, st2)
                    \<and> (key \<noteq> [] \<longrightarrow> inner (data (conf st2)) DEFAULT_SECTION key = Some val)
                    \<and> (key = [] \<longrightarrow> data (conf st2) = data (conf st1)))))"
proof (intro conjI impI allI)
  assume "key_value_line line"
  then show "(processLine lb line st = Inl (readError ERR_BLANK_SECTION_NAME line))
        = (cur_section st = [])"
    by (simp add: processLine_blank_section)
next
  fix l
  assume "processLine lb line st = Inl (readError ERR_BLANK_SECTION_NAME l)"
  then show "key_value_line line" "cur_section st = []" "l = line"
    by (simp_all add: processLine_blank_section)
next
  fix fl st'
  assume a: "processLine lb line st = Inr (fl, st') \<and> cur_section st' = []"
  show "cur_section st = []
      \<or> (section_line line \<and> TrimSpace (take (length line - 1 - 1) (drop 1 line)) = [])"
  proof (cases "section_line line")
    case True
    with a processLine_section_set [of lb line st fl st'] show ?thesis by simp
  next
    case False
    with a processLine_section_kept [of lb line st fl st'] show ?thesis by simp
  qed
next
  fix l
  assume "CHR ''['' \<notin> set input"
  then have "CHR ''['' \<notin> set (skipBOM input)" using skipBOM_subset by blast
  then have "fst (read_loop lb (skipBOM input)
       \<lparr>conf = c, count = 1, cur_section = DEFAULT_SECTION, comments = []\<rparr>)
     \<noteq> Some (readError ERR_BLANK_SECTION_NAME l)"
    by (rule read_loop_never_blank) (simp add: DEFAULT_SECTION_def)
  then show "fst (read lb c input) \<noteq> Some (readError ERR_BLANK_SECTION_NAME l)"
    by (simp add: read_def case_prod_beta)
next
  show "read lb c input =
        (case run_lines lb (input_lines (skipBOM input)) (start_state c) of
           (err, st') \<Rightarrow> (err, conf st'))"
    by (rule read_lines)
next
  fix l
  show "(fst (read lb c input) = Some (readError ERR_BLANK_SECTION_NAME l)) =
          (\<exists>pre post st'. input_lines (skipBOM input) = pre @ l # post
             \<and> run_lines lb pre (start_state c) = (None, st') \<and> cur_section st' = []
             \<and> key_value_line l)"
    by (rule read_blank_iff)
next
  fix l
  assume "\<forall>h \<in> set (input_lines (skipBOM input)).
          section_line h \<longrightarrow> TrimSpace (take (length h - 1 - 1) (drop 1 h)) \<noteq> []"
  then show "fst (read lb c input) \<noteq> Some (readError ERR_BLANK_SECTION_NAME l)"
    by (rule read_named_headers)
next
  fix pre post st1
  assume a: "input_lines (skipBOM input) = pre @ line # post \<and> (\<forall>h \<in> set pre. \<not> section_line h)
            \<and> run_lines lb pre (start_state c) = (None, st1) \<and> key_value_line line"
  then have l: "input_lines (skipBOM input) = pre @ line # post"
    and h: "\<forall>h \<in> set pre. \<not> section_line h"
    and r: "run_lines lb pre (start_state c) = (None, st1)" and k: "key_value_line line"
    by blast+
  show "cur_section st1 = DEFAULT_SECTION" by (rule before_any_header(1) [OF l h r k])
  { fix err
    assume "keyValue line (count st1) = Inl err"
    then have e: "err = readError ERR_COULD_NOT_PARSE line \<and> fst (read lb c input) = Some err"
      by (rule before_any_header(2) [OF l h r k])
    from e show "err = readError ERR_COULD_NOT_PARSE line" ..
    from e show "fst (read lb c input) = Some err" .. }
  { fix key val n
    assume "keyValue line (count st1) = Inr (key, val, n)"
    then show "\<exists>st2. run_lines lb (pre @ [line]) (start_state c) = (None, st2)
                    \<and> (key \<noteq> [] \<longrightarrow> inner (data (conf st2)) DEFAULT_SECTION key = Some val)
                    \<and> (key = [] \<longrightarrow> data (conf st2) = data (conf st1))"
      by (rule before_any_header(3) [OF l h r k]) }
qed

theorem blank_section_name_error_witness:
  "processLine [NL] ''k=v'' blank_state = Inl (readError ERR_BLANK_SECTION_NAME ''k=v'')
   \<and> fst (read [NL] (newConfigFile [''conf/app.conf'']) ''k=v'')
       \<noteq> Some (readError ERR_BLANK_SECTION_NAME ''k=v'')
   \<and> fst (read [NL] (newConfigFile [''conf/app.conf'']) (''[]'' @ [NL] @ ''k=v''))
       = Some (readError ERR_BLANK_SECTION_NAME ''k=v'')
   \<and> section_line ''[ ]''
   \<and> TrimSpace (take (length ''[ ]'' - 1 - 1) (drop 1 ''[ ]'')) = []
   \<and> fst (read [NL] (newConfigFile [''conf/app.conf'']) ''k=[v]'')
       \<noteq> Some (readError ERR_BLANK_SECTION_NAME ''k=[v]'')
   \<and> (\<exists>st2. run_lines [NL] ([''# c''] @ [''k=v''])
               (start_state (newConfigFile [''conf/app.conf''])) = (None, st2)
          \<and> inner (data (conf st2)) DEFAULT_SECTION ''k'' = Some ''v'')"
proof (intro conjI)
  have "key_value_line ''k=v''" by (simp add: key_value_line_def)
  moreover have "cur_section blank_state = []" by (simp add: blank_state_def)
  ultimately show "processLine [NL] ''k=v'' blank_state
      = Inl (readError ERR_BLANK_SECTION_NAME ''k=v'')"
    using blank_section_name_error [of "''k=v''" "[NL]" blank_state] by blast
next
  have "CHR ''['' \<notin> set ''k=v''" by simp
  then show "fst (read [NL] (newConfigFile [''conf/app.conf'']) ''k=v'')
       \<noteq> Some (readError ERR_BLANK_SECTION_NAME ''k=v'')"
    using blank_section_name_error
      [where input = "''k=v''" and lb = "[NL]" and c = "newConfigFile [''conf/app.conf'']"]
    by blast
next
  let ?c = "newConfigFile [''conf/app.conf'']"
  let ?st = "snd (run_lines [NL] [''[]''] (start_state ?c))"
  have "input_lines (skipBOM (''[]'' @ [NL] @ ''k=v'')) = [''[]''] @ ''k=v'' # []"
    by code_simp
  moreover have "fst (run_lines [NL] [''[]''] (start_state ?c)) = None" by code_simp
  then have "run_lines [NL] [''[]''] (start_state ?c) = (None, ?st)"
    by (simp add: prod_eq_iff)
  moreover have "cur_section ?st = []" by code_simp
  moreover have "key_value_line ''k=v''" by (simp add: key_value_line_def)
  ultimately have "\<exists>pre post st'.
      input_lines (skipBOM (''[]'' @ [NL] @ ''k=v'')) = pre @ ''k=v'' # post
      \<and> run_lines [NL] pre (start_state ?c) = (None, st') \<and> cur_section st' = []
      \<and> key_value_line ''k=v''"
    by blast
  then show "fst (read [NL] ?c (''[]'' @ [NL] @ ''k=v''))
       = Some (readError ERR_BLANK_SECTION_NAME ''k=v'')"
    using blank_section_name_error
      [where input = "''[]'' @ [NL] @ ''k=v''" and lb = "[NL]" and c = ?c]
    by blast
next
  have "section_line ''[ ]''" by (simp add: section_line_def)
  then obtain st' where "processLine [NL] ''[ ]'' counting_state = Inr (Continue, st')"
    and "cur_section st' = TrimSpace (take (length ''[ ]'' - 1 - 1) (drop 1 ''[ ]''))"
    using processLine_section [of "''[ ]''" "[NL]" counting_state] by blast
  moreover have "TrimSpace (take (length ''[ ]'' - 1 - 1) (drop 1 ''[ ]'')) = []" by code_simp
  ultimately have "processLine [NL] ''[ ]'' counting_state = Inr (Continue, st')
      \<and> cur_section st' = []" by simp
  moreover have "cur_section counting_state \<noteq> []" by (simp add: counting_state_def)
  ultimately have both: "section_line ''[ ]''
      \<and> TrimSpace (take (length ''[ ]'' - 1 - 1) (drop 1 ''[ ]'')) = []"
    using blank_section_name_error [of "''[ ]''" "[NL]" counting_state] by blast
  from both show "section_line ''[ ]''" ..
  from both show "TrimSpace (take (length ''[ ]'' - 1 - 1) (drop 1 ''[ ]'')) = []" ..
next
  have il: "input_lines (skipBOM ''k=[v]'') = [''k=[v]'']" by code_simp
  have "\<not> section_line ''k=[v]''" by (simp add: section_line_def)
  then have "\<forall>h \<in> set (input_lines (skipBOM ''k=[v]'')).
      section_line h \<longrightarrow> TrimSpace (take (length h - 1 - 1) (drop 1 h)) \<noteq> []"
    by (simp add: il)
  then show "fst (read [NL] (newConfigFile [''conf/app.conf'']) ''k=[v]'')
       \<noteq> Some (readError ERR_BLANK_SECTION_NAME ''k=[v]'')"
    using blank_section_name_error
      [where input = "''k=[v]''" and lb = "[NL]" and c = "newConfigFile [''conf/app.conf'']"]
    by blast
next
  let ?c = "newConfigFile [''conf/app.conf'']"
  let ?st = "snd (run_lines [NL] [''# c''] (start_state ?c))"
  have il: "input_lines (skipBOM mixed_conf) = [''# c''] @ ''k=v'' # [''[s]'', ''x=y'']"
    unfolding mixed_conf_def by code_simp
  have nohdr: "\<forall>h \<in> set [''# c'']. \<not> section_line h" by (simp add: section_line_def)
  have "fst (run_lines [NL] [''# c''] (start_state ?c)) = None" by code_simp
  then have run: "run_lines [NL] [''# c''] (start_state ?c) = (None, ?st)"
    by (simp add: prod_eq_iff)
  have kv: "key_value_line ''k=v''" by (simp add: key_value_line_def)
  have "count ?st = 1" by code_simp
  moreover have "keyValue ''k=v'' 1 = Inr (''k'', ''v'', 1)" by code_simp
  ultimately have parsed: "keyValue ''k=v'' (count ?st) = Inr (''k'', ''v'', 1)" by simp
  have key: "''k'' \<noteq> []" by simp
  note th = blank_section_name_error
    [where input = mixed_conf and lb = "[NL]" and c = ?c and line = "''k=v''"]
  from th il nohdr run kv parsed
  have "\<exists>st2. run_lines [NL] ([''# c''] @ [''k=v'']) (start_state ?c) = (None, st2)
      \<and> (''k'' \<noteq> [] \<longrightarrow> inner (data (conf st2)) DEFAULT_SECTION ''k'' = Some ''v'')
      \<and> (''k'' = [] \<longrightarrow> data (conf st2) = data (conf ?st))"
    by blast
  with key show "\<exists>st2. run_lines [NL] ([''# c''] @ [''k=v'']) (start_state ?c) = (None, st2)
      \<and> inner (data (conf st2)) DEFAULT_SECTION ''k'' = Some ''v''"
    by blast
qed

text \<open>The one-line file \<open>k=v\<close> has no header; it is read without error, into
  section \<open>DEFAULT\<close>.\<close>

theorem key_value_before_any_header:
  "fst (read [NL] (newConfigFile [''conf/app.conf'']) ''k=v'') = None
   \<and> inner (data (snd (read [NL] (newConfigFile [''conf/app.conf'']) ''k=v'')))
        ''DEFAULT'' ''k'' = Some ''v''"
  by code_simp

end
